(* ===== verification/BL_Prelude.thy ===== *)
theory BL_Prelude
  imports Main "HOL-Library.Word" "HOL-Library.Monad_Syntax"
begin

text \<open>
  Shared ground of the development: the machine types of the SDK (32-bit RISC-V, so
  \<open>int\<close>, \<open>unsigned int\<close>, \<open>size_t\<close> and pointers are 32 bits wide), pointers and pointer-linked
  chains, the error numbers of \<open>errno.h\<close> the sources return, and generic lemmas on lists,
  chains and words.

  Pointers are \<open>addr option\<close> with \<open>None\<close> for \<open>NULL\<close>. Code that reads or writes through a
  pointer is modelled in the \<open>option\<close> type: \<open>None\<close> stands for a run that dereferences \<open>NULL\<close> or
  does not return, so a theorem that a call yields \<open>Some\<close> also says that neither happens.
\<close>

section \<open>Machine types and pointers\<close>

type_synonym u8 = "8 word"
type_synonym u16 = "16 word"
type_synonym u32 = "32 word"
type_synonym u64 = "64 word"
type_synonym s32 = "32 word"
type_synonym addr = nat
type_synonym ptr = "addr option"

abbreviation NULL :: ptr where "NULL \<equiv> None"

definition rd :: "(addr \<Rightarrow> 'v) \<Rightarrow> ptr \<Rightarrow> 'v option" where
  "rd h p = (case p of None \<Rightarrow> None | Some a \<Rightarrow> Some (h a))"

definition wr :: "(addr \<Rightarrow> 'v) \<Rightarrow> ptr \<Rightarrow> 'v \<Rightarrow> (addr \<Rightarrow> 'v) option" where
  "wr h p v = (case p of None \<Rightarrow> None | Some a \<Rightarrow> Some (h(a := v)))"

lemma rd_simps [simp]: "rd h (Some a) = Some (h a)" "rd h None = None"
  by (simp_all add: rd_def)

lemma wr_simps [simp]: "wr h (Some a) v = Some (h(a := v))" "wr h None v = None"
  by (simp_all add: wr_def)

section \<open>Error numbers\<close>

definition ENOENT :: int where "ENOENT = 2"
definition ENOMEM :: int where "ENOMEM = 12"
definition EBUSY :: int where "EBUSY = 16"
definition ENODEV :: int where "ENODEV = 19"
definition EINVAL :: int where "EINVAL = 22"
definition ENFILE :: int where "ENFILE = 23"
definition EPIPE :: int where "EPIPE = 32"
definition ENOSYS :: int where "ENOSYS = 88"
definition ENAMETOOLONG :: int where "ENAMETOOLONG = 91"

named_theorems errno "values of the error numbers"

lemmas [errno] = ENOENT_def ENOMEM_def EBUSY_def ENODEV_def EINVAL_def ENFILE_def EPIPE_def
  ENOSYS_def ENAMETOOLONG_def

section \<open>Chains of pointers\<close>

text \<open>\<open>chain h p xs q\<close>: following \<open>h\<close> from \<open>p\<close> visits exactly the addresses \<open>xs\<close> and arrives at \<open>q\<close>.\<close>

primrec chain :: "(addr \<Rightarrow> ptr) \<Rightarrow> ptr \<Rightarrow> addr list \<Rightarrow> ptr \<Rightarrow> bool" where
  "chain h p [] q = (p = q)"
| "chain h p (x # xs) q = (p = Some x \<and> chain h (h x) xs q)"

lemma chain_append: "chain h p (xs @ ys) q \<longleftrightarrow> (\<exists>r. chain h p xs r \<and> chain h r ys q)"
  by (induction xs arbitrary: p) auto

lemma chain_NULL_iff [simp]: "chain h None xs q \<longleftrightarrow> xs = [] \<and> q = None"
  by (cases xs) auto

lemma chain_to_NULL_Some: "chain h (Some a) xs None \<longleftrightarrow> (\<exists>ys. xs = a # ys \<and> chain h (h a) ys None)"
  by (cases xs) auto

lemma chain_upd [simp]: "a \<notin> set xs \<Longrightarrow> chain (h(a := v)) p xs q = chain h p xs q"
  by (induction xs arbitrary: p) auto

lemma chain_unique: "chain h p xs None \<Longrightarrow> chain h p ys None \<Longrightarrow> xs = ys"
proof (induction xs arbitrary: p ys)
  case (Cons x xs)
  then show ?case by (cases ys) auto
qed auto

lemma chain_suffix: "chain h p (xs @ x # ys) q \<Longrightarrow> chain h (Some x) (x # ys) q"
  by (auto simp: chain_append)

lemma chain_distinct: "chain h p xs None \<Longrightarrow> distinct xs"
proof (induction xs arbitrary: p)
  case (Cons x xs)
  have "x \<notin> set xs"
  proof
    assume "x \<in> set xs"
    then obtain as bs where xs: "xs = as @ x # bs" by (auto simp: in_set_conv_decomp)
    with Cons.prems have "chain h (Some x) (x # as @ x # bs) None" by simp
    moreover from Cons.prems xs have "chain h (Some x) (x # bs) None"
      using chain_suffix [of h p "x # as" x bs None] by simp
    ultimately have "x # as @ x # bs = x # bs" by (rule chain_unique)
    then have "length (as @ x # bs) = length bs" by (metis list.inject)
    then show False by simp
  qed
  with Cons show ?case by auto
qed simp

lemma chain_snoc_NULL:
  "chain h p (xs @ [x]) None \<longleftrightarrow> chain h p xs (Some x) \<and> h x = None"
  by (auto simp: chain_append)

lemma chain_relink:
  "chain h p (xs @ [x]) r \<Longrightarrow> x \<notin> set xs \<Longrightarrow> chain (h(x := q)) p (xs @ [x]) q"
  by (auto simp: chain_append)

section \<open>Lists\<close>

lemma butlast_snoc_last: "xs \<noteq> [] \<Longrightarrow> \<exists>ys. xs = ys @ [last xs]"
  by (metis append_butlast_last_id)

lemma split_first_occurrence:
  "x \<in> set xs \<Longrightarrow> \<exists>as bs. xs = as @ x # bs \<and> x \<notin> set as"
  by (rule split_list_first)

section \<open>Bits of masks\<close>

lemma bit_mask_int:
  "bit (255 :: int) n \<longleftrightarrow> n < 8" "bit (63 :: int) n \<longleftrightarrow> n < 6" "bit (15 :: int) n \<longleftrightarrow> n < 4"
  "bit (240 :: int) n \<longleftrightarrow> 4 \<le> n \<and> n < 8"
proof -
  show "bit (255 :: int) n \<longleftrightarrow> n < 8" "bit (63 :: int) n \<longleftrightarrow> n < 6" and lo: "bit (15 :: int) n \<longleftrightarrow> n < 4" for n
    using bit_mask_iff [of 8 n, where 'a = int] bit_mask_iff [of 6 n, where 'a = int]
      bit_mask_iff [of 4 n, where 'a = int] by (simp_all add: mask_numeral)
  have "bit (push_bit 4 (15 :: int)) n \<longleftrightarrow> 4 \<le> n \<and> n < 8" by (subst bit_push_bit_iff) (auto simp: lo)
  then show "bit (240 :: int) n \<longleftrightarrow> 4 \<le> n \<and> n < 8" by (simp add: push_bit_eq_mult)
qed

section \<open>Conversions between word widths\<close>

lemma unat_ucast_up:
  "unat (ucast (x :: u8) :: u32) = unat x" "unat (ucast (y :: u16) :: u32) = unat y"
  "unat (ucast (x :: u8) :: u16) = unat x" "unat (ucast (z :: u32) :: u64) = unat z"
  using unsigned_less [of x, where 'a = nat] unsigned_less [of y, where 'a = nat] unsigned_less [of z, where 'a = nat]
  by (simp_all add: unsigned_ucast_eq take_bit_nat_eq_self)

lemma unat_ucast_down:
  "unat (z :: u32) < 2 ^ 8 \<Longrightarrow> unat (ucast z :: u8) = unat z"
  "unat (z :: u32) < 2 ^ 16 \<Longrightarrow> unat (ucast z :: u16) = unat z"
  by (simp_all add: unsigned_ucast_eq take_bit_nat_eq_self)

end
