(* ===== verification/Utils_RBTree.thy ===== *)
theory Utils_RBTree
  imports BL_Prelude
begin

text \<open>
  The red-black tree of \<open>utils/src/utils_rbtree.c\<close>, with its top-down insertion and removal.

  A node with its two subtrees is a value of \<open>'a rb\<close>; directions \<open>0\<close> and \<open>1\<close> are \<open>False\<close> and
  \<open>True\<close>. The loops of the source walk down the tree with the pointers \<open>t\<close>, \<open>g\<close>, \<open>p\<close>, \<open>q\<close>
  (great-grandparent, grandparent, parent, current node) and relink nodes on the way. The model
  keeps the walk as a path of frames, the frame of \<open>p\<close> first, with the subtree of \<open>q\<close> in focus;
  an assignment to \<open>t->link[dir2]\<close> replaces the subtree of \<open>g\<close> in place. A rotation leaves
  \<open>g\<close> and \<open>t\<close> of the source pointing at nodes that are no longer the parent of \<open>p\<close> and of \<open>g\<close>:
  the flags \<open>sg\<close> and \<open>st\<close> record that, and a step that would relink through such a pointer has
  the value \<open>None\<close>. That no insertion into a red-black tree ever does is part of the theorems.

  The comparison callback is a parameter \<open>cmp\<close>. What it must satisfy is \<open>mono_probe\<close>: along
  the in-order sequence of the tree the sign of \<open>cmp x n\<close> goes from negative over at most one
  zero to positive.
\<close>

section \<open>Nodes and rotations\<close>

datatype 'a rb = RNil | RNode (red: bool) (link0: "'a rb") (val: 'a) (link1: "'a rb")

fun rb_node_is_red :: "'a rb \<Rightarrow> bool" where
  "rb_node_is_red RNil = False"
| "rb_node_is_red (RNode c l v r) = c"

fun link :: "bool \<Rightarrow> 'a rb \<Rightarrow> 'a rb" where
  "link d RNil = RNil"
| "link d (RNode c l v r) = (if d then r else l)"

fun set_red :: "bool \<Rightarrow> 'a rb \<Rightarrow> 'a rb" where
  "set_red c RNil = RNil"
| "set_red c (RNode _ l v r) = RNode c l v r"

definition rb_node_init :: "'a \<Rightarrow> 'a rb" where
  "rb_node_init v = RNode True RNil v RNil"

fun rb_node_rotate :: "'a rb \<Rightarrow> bool \<Rightarrow> 'a rb option" where
  "rb_node_rotate RNil dir = Some RNil"
| "rb_node_rotate (RNode c l v r) False =
     (case r of RNil \<Rightarrow> None
      | RNode _ rl rv rr \<Rightarrow> Some (RNode False (RNode True l v rl) rv rr))"
| "rb_node_rotate (RNode c l v r) True =
     (case l of RNil \<Rightarrow> None
      | RNode _ ll lv lr \<Rightarrow> Some (RNode False ll lv (RNode True lr v r)))"

fun rb_node_rotate2 :: "'a rb \<Rightarrow> bool \<Rightarrow> 'a rb option" where
  "rb_node_rotate2 RNil dir = Some RNil"
| "rb_node_rotate2 (RNode c l v r) False = do {
     r' \<leftarrow> rb_node_rotate r True;
     rb_node_rotate (RNode c l v r') False
   }"
| "rb_node_rotate2 (RNode c l v r) True = do {
     l' \<leftarrow> rb_node_rotate l False;
     rb_node_rotate (RNode c l' v r) True
   }"

section \<open>Paths\<close>

text \<open>\<open>Fr d c v s\<close>: a node of colour \<open>c\<close> with value \<open>v\<close> left in direction \<open>d\<close>; \<open>s\<close> is its other child.\<close>

datatype 'a frame = Fr (fdir: bool) (fred: bool) (fval: 'a) (fsib: "'a rb")

fun plug :: "'a frame \<Rightarrow> 'a rb \<Rightarrow> 'a rb" where
  "plug (Fr d c v s) t = (if d then RNode c s v t else RNode c t v s)"

primrec zip_up :: "'a frame list \<Rightarrow> 'a rb \<Rightarrow> 'a rb" where
  "zip_up [] t = t"
| "zip_up (f # fs) t = zip_up fs (plug f t)"

fun down :: "bool \<Rightarrow> 'a rb \<Rightarrow> ('a frame \<times> 'a rb) option" where
  "down d RNil = None"
| "down d (RNode c l v r) = Some (if d then (Fr True c v l, r) else (Fr False c v r, l))"

section \<open>The tree object\<close>

record 'a rb_tree =
  root :: "'a rb"
  rb_size :: u32

type_synonym 'a cmp = "'a \<Rightarrow> 'a \<Rightarrow> int"

definition rb_tree_init :: "'a rb_tree" where
  "rb_tree_init = \<lparr>root = RNil, rb_size = 0\<rparr>"

definition rb_tree_size :: "'a rb_tree option \<Rightarrow> u32" where
  "rb_tree_size self = (case self of None \<Rightarrow> 0 | Some t \<Rightarrow> rb_size t)"

fun rb_find_loop :: "'a cmp \<Rightarrow> 'a \<Rightarrow> 'a rb \<Rightarrow> 'a option" where
  "rb_find_loop cmp n RNil = None"
| "rb_find_loop cmp n (RNode c l v r) =
     (let k = cmp v n in if k \<noteq> 0 then rb_find_loop cmp n (if k < 0 then r else l) else Some v)"

definition rb_tree_find :: "'a cmp \<Rightarrow> 'a rb_tree option \<Rightarrow> 'a \<Rightarrow> 'a option" where
  "rb_tree_find cmp self n = (case self of None \<Rightarrow> None | Some t \<Rightarrow> rb_find_loop cmp n (root t))"

fun rb_tree_test :: "'a cmp \<Rightarrow> 'a rb \<Rightarrow> nat" where
  "rb_tree_test cmp RNil = 1"
| "rb_tree_test cmp (RNode c ln v rn) =
     (if c \<and> (rb_node_is_red ln \<or> rb_node_is_red rn) then 0
      else let lh = rb_tree_test cmp ln; rh = rb_tree_test cmp rn in
        if (ln \<noteq> RNil \<and> cmp (val ln) v \<ge> 0) \<or> (rn \<noteq> RNil \<and> cmp (val rn) v \<le> 0) then 0
        else if lh \<noteq> 0 \<and> rh \<noteq> 0 \<and> lh \<noteq> rh then 0
        else if lh \<noteq> 0 \<and> rh \<noteq> 0 then (if c then lh else lh + 1)
        else 0)"

subsection \<open>Insertion\<close>

text \<open>\<open>rb_insert_visit\<close>: insert the node at a null link, or flip the colours of \<open>q\<close> and its red children.\<close>

fun rb_insert_visit :: "'a rb \<Rightarrow> 'a rb \<Rightarrow> 'a rb" where
  "rb_insert_visit node RNil = node"
| "rb_insert_visit node (RNode c l v r) =
     (if rb_node_is_red l \<and> rb_node_is_red r then RNode True (set_red False l) v (set_red False r)
      else RNode c l v r)"

text \<open>
  \<open>rb_insert_fix\<close>: the hard red violation. The result gives the walk after the rotation: the
  path above \<open>q\<close>, \<open>q\<close>, and whether \<open>g\<close> and \<open>t\<close> are out of place when the helpers have moved on.
  With \<open>g\<close> null the rotation returns null into the unused link of the false root.
\<close>

fun rb_insert_fix :: "bool \<Rightarrow> bool \<Rightarrow> 'a frame list \<Rightarrow> 'a rb
    \<Rightarrow> ('a frame list \<times> 'a rb \<times> bool \<times> bool) option" where
  "rb_insert_fix sg st [] q = Some ([], q, False, sg)"
| "rb_insert_fix sg st (pf # rest) q =
     (if rb_node_is_red q \<and> fred pf then
        if sg \<or> st then None
        else (case rest of
            [] \<Rightarrow> Some ([pf], q, False, sg)
          | gf # ups \<Rightarrow>
              let lst = fdir gf; g = plug gf (plug pf q) in
              if fdir pf = lst then do {
                sub \<leftarrow> rb_node_rotate g (\<not> lst);
                (pf', q') \<leftarrow> down lst sub;
                Some (pf' # ups, q', False, True)
              } else do {
                sub \<leftarrow> rb_node_rotate2 g (\<not> lst);
                Some (ups, sub, True, True)
              })
      else Some (pf # rest, q, False, sg))"

partial_function (option) rb_insert_loop ::
  "'a cmp \<Rightarrow> 'a rb \<Rightarrow> 'a \<Rightarrow> bool \<Rightarrow> bool \<Rightarrow> 'a frame list \<Rightarrow> 'a rb \<Rightarrow> 'a rb option" where
  "rb_insert_loop cmp node n sg st fs q = do {
     (fs, q, sg, st) \<leftarrow> rb_insert_fix sg st fs (rb_insert_visit node q);
     let k = cmp (val q) n;
     if k = 0 then Some (zip_up fs q)
     else do {
       (f, q) \<leftarrow> down (k < 0) q;
       rb_insert_loop cmp node n sg st (f # fs) q
     }
   }"

declare rb_insert_loop.simps [code]

text \<open>\<open>rb_tree_insert_node\<close> on a node that \<open>rb_node_create\<close> made; the result is the returned \<open>int\<close> and the tree.\<close>

definition rb_tree_insert_node :: "'a cmp \<Rightarrow> 'a rb_tree \<Rightarrow> 'a rb \<Rightarrow> (int \<times> 'a rb_tree) option" where
  "rb_tree_insert_node cmp self node = do {
     r \<leftarrow> (if root self = RNil then Some node
          else rb_insert_loop cmp node (val node) False False [] (root self));
     Some (1, self\<lparr>root := set_red False r, rb_size := rb_size self + 1\<rparr>)
   }"

text \<open>\<open>alloc\<close>: whether \<open>rb_node_create\<close> got memory for the node.\<close>

definition rb_tree_insert ::
  "'a cmp \<Rightarrow> bool \<Rightarrow> 'a rb_tree option \<Rightarrow> 'a \<Rightarrow> (int \<times> 'a rb_tree option) option" where
  "rb_tree_insert cmp alloc self v = (case self of
       None \<Rightarrow> Some (0, None)
     | Some t \<Rightarrow> if \<not> alloc then Some (0, Some t)
         else do { (ret, t') \<leftarrow> rb_tree_insert_node cmp t (rb_node_init v); Some (ret, Some t') })"

subsection \<open>Removal\<close>

text \<open>
  One pass of the removal loop below the path \<open>fs\<close> (empty when \<open>p\<close> is the false root), with
  \<open>q\<close> in focus and \<open>dir\<close> already computed: push a red node down.
\<close>

definition rb_remove_push :: "bool \<Rightarrow> 'a frame list \<Rightarrow> 'a rb \<Rightarrow> ('a frame list \<times> 'a rb) option" where
  "rb_remove_push dir fs q =
     (if \<not> rb_node_is_red q \<and> \<not> rb_node_is_red (link dir q) then
        if rb_node_is_red (link (\<not> dir) q) then do {
          sub \<leftarrow> rb_node_rotate q dir;
          (f, q) \<leftarrow> down dir sub;
          Some (f # fs, q)
        } else (case fs of
            [] \<Rightarrow> Some (fs, q)
          | Fr lst c v s # ups \<Rightarrow>
              if s = RNil then Some (fs, q)
              else if \<not> rb_node_is_red (link (\<not> lst) s) \<and> \<not> rb_node_is_red (link lst s) then
                Some (Fr lst False v (set_red True s) # ups, set_red True q)
              else do {
                let p = plug (Fr lst c v s) q;
                sub \<leftarrow> (if rb_node_is_red (link lst s) then rb_node_rotate2 p lst
                       else rb_node_rotate p lst);
                (tf, p) \<leftarrow> down lst sub;
                (pf, q) \<leftarrow> down lst p;
                Some (Fr lst False (fval pf) (fsib pf) #
                      Fr lst True (fval tf) (set_red False (fsib tf)) # ups, set_red True q)
              })
      else Some (fs, q))"

text \<open>
  The loop. Its lst argument is \<open>q->link[dir]\<close>, the path ends with the frame of \<open>q\<close>, and \<open>f\<close>
  is the found node, named by the value it holds. It ends at a null link.
\<close>

fun rb_remove_loop :: "'a cmp \<Rightarrow> 'a \<Rightarrow> 'a option \<Rightarrow> 'a frame list \<Rightarrow> 'a rb
    \<Rightarrow> ('a option \<times> 'a frame list) option" where
  "rb_remove_loop cmp n f fs RNil = Some (f, fs)"
| "rb_remove_loop cmp n f fs (RNode c l v r) =
     (let dir = cmp v n < 0; f = (if cmp v n = 0 then Some v else f) in
      case rb_remove_push dir fs (RNode c l v r) of
        None \<Rightarrow> None
      | Some (fs, q) \<Rightarrow>
          rb_remove_loop cmp n f (Fr dir (red q) v (link (\<not> dir) q) # fs) (if dir then r else l))"

fun subst_val :: "'a \<Rightarrow> 'a \<Rightarrow> 'a frame list \<Rightarrow> 'a frame list" where
  "subst_val a b [] = []"
| "subst_val a b (Fr d c v s # fs) = (if v = a then Fr d c b s # fs else Fr d c v s # subst_val a b fs)"

text \<open>Unlink \<open>q\<close>, whose value moves into the found node.\<close>

definition rb_remove_finish :: "'a option \<Rightarrow> 'a frame list \<Rightarrow> 'a rb" where
  "rb_remove_finish f fs = (case f of
      None \<Rightarrow> zip_up fs RNil
    | Some fv \<Rightarrow> (case fs of [] \<Rightarrow> RNil
      | qf # ups \<Rightarrow>
          let q = plug qf RNil; ups = (if fval qf = fv then ups else subst_val fv (fval qf) ups)
          in zip_up ups (link (link False q = RNil) q)))"

definition rb_tree_remove :: "'a cmp \<Rightarrow> 'a rb_tree option \<Rightarrow> 'a \<Rightarrow> (int \<times> 'a rb_tree option) option" where
  "rb_tree_remove cmp self n = (case self of
      None \<Rightarrow> Some (0, None)
    | Some t \<Rightarrow>
        if root t = RNil then Some (1, Some t)
        else do {
          (f, fs) \<leftarrow> rb_remove_loop cmp n None [] (root t);
          Some (1, Some (t\<lparr>root := set_red False (rb_remove_finish f fs), rb_size := rb_size t - 1\<rparr>))
        })"

section \<open>Destruction\<close>

text \<open>
  The loop of \<open>rb_tree_dealloc\<close>: rotate left links away, then hand the nodes to the callback one
  by one. The result lists the values in the order of the callbacks.
\<close>

function rb_dealloc_loop :: "'a rb \<Rightarrow> 'a list" where
  "rb_dealloc_loop RNil = []"
| "rb_dealloc_loop (RNode c RNil v r) = v # rb_dealloc_loop r"
| "rb_dealloc_loop (RNode c (RNode lc ll lv lr) v r) = rb_dealloc_loop (RNode lc ll lv (RNode c lr v r))"
  by pat_completeness auto
termination by (relation "measures [size, \<lambda>t. size (link False t)]") auto

definition rb_tree_dealloc :: "'a rb_tree option \<Rightarrow> 'a list" where
  "rb_tree_dealloc self = (case self of None \<Rightarrow> [] | Some t \<Rightarrow> rb_dealloc_loop (root t))"

section \<open>Iteration\<close>

text \<open>
  The iterator keeps the stack of ancestors of its current node in an array of
  \<open>RB_ITER_MAX_HEIGHT\<close> entries, here the path above the current node; a push onto a full array
  has the value \<open>None\<close>. The current node is \<open>RNil\<close> at the end.
\<close>

definition RB_ITER_MAX_HEIGHT :: nat where
  "RB_ITER_MAX_HEIGHT = 64"

record 'a rb_iter =
  it_path :: "'a frame list"
  it_node :: "'a rb"

definition rb_iter_init :: "'a rb_iter" where
  "rb_iter_init = \<lparr>it_path = [], it_node = RNil\<rparr>"

definition rb_iter_value :: "'a rb_iter \<Rightarrow> 'a option" where
  "rb_iter_value it = (case it_node it of RNil \<Rightarrow> None | RNode c l v r \<Rightarrow> Some v)"

definition rb_iter_push :: "'a frame \<Rightarrow> 'a frame list \<Rightarrow> 'a frame list option" where
  "rb_iter_push f fs = (if length fs < RB_ITER_MAX_HEIGHT then Some (f # fs) else None)"

fun rb_iter_descend :: "bool \<Rightarrow> 'a frame list \<Rightarrow> 'a rb \<Rightarrow> ('a frame list \<times> 'a rb) option" where
  "rb_iter_descend d fs RNil = None"
| "rb_iter_descend d fs (RNode c l v r) =
     (if (if d then r else l) = RNil then Some (fs, RNode c l v r)
      else if d then do { fs \<leftarrow> rb_iter_push (Fr True c v l) fs; rb_iter_descend d fs r }
      else do { fs \<leftarrow> rb_iter_push (Fr False c v r) fs; rb_iter_descend d fs l })"

definition rb_iter_start :: "'a rb_tree \<Rightarrow> bool \<Rightarrow> 'a rb_iter option" where
  "rb_iter_start tree dir =
     (if root tree = RNil then Some \<lparr>it_path = [], it_node = RNil\<rparr>
      else do {
        (fs, q) \<leftarrow> rb_iter_descend dir [] (root tree);
        Some \<lparr>it_path = fs, it_node = q\<rparr>
      })"

text \<open>The test \<open>last == self->node->link[dir]\<close> asks in which direction the path left the node.\<close>

fun rb_iter_climb :: "bool \<Rightarrow> 'a frame list \<Rightarrow> 'a rb \<Rightarrow> 'a frame list \<times> 'a rb" where
  "rb_iter_climb dir [] t = ([], RNil)"
| "rb_iter_climb dir (f # fs) t = (if fdir f = dir then rb_iter_climb dir fs (plug f t) else (fs, plug f t))"

definition rb_iter_move :: "'a rb_iter \<Rightarrow> bool \<Rightarrow> 'a rb_iter option" where
  "rb_iter_move self dir =
     (if it_node self = RNil then None
      else if link dir (it_node self) \<noteq> RNil then do {
        (f, q) \<leftarrow> down dir (it_node self);
        fs \<leftarrow> rb_iter_push f (it_path self);
        (fs, q) \<leftarrow> rb_iter_descend (\<not> dir) fs q;
        Some \<lparr>it_path = fs, it_node = q\<rparr>
      } else let (fs, q) = rb_iter_climb dir (it_path self) (it_node self)
             in Some \<lparr>it_path = fs, it_node = q\<rparr>)"

definition rb_iter_first :: "'a rb_tree \<Rightarrow> 'a rb_iter option" where
  "rb_iter_first tree = rb_iter_start tree False"

definition rb_iter_last :: "'a rb_tree \<Rightarrow> 'a rb_iter option" where
  "rb_iter_last tree = rb_iter_start tree True"

definition rb_iter_next :: "'a rb_iter \<Rightarrow> 'a rb_iter option" where
  "rb_iter_next self = rb_iter_move self True"

definition rb_iter_prev :: "'a rb_iter \<Rightarrow> 'a rb_iter option" where
  "rb_iter_prev self = rb_iter_move self False"

text \<open>The client loop: visit at most \<open>n\<close> nodes, moving in direction \<open>dir\<close>.\<close>

primrec rb_iter_run :: "nat \<Rightarrow> bool \<Rightarrow> 'a rb_iter \<Rightarrow> 'a list option" where
  "rb_iter_run 0 dir it = (if it_node it = RNil then Some [] else None)"
| "rb_iter_run (Suc n) dir it = (case it_node it of
      RNil \<Rightarrow> Some []
    | RNode c l v r \<Rightarrow> do { it' \<leftarrow> rb_iter_move it dir; vs \<leftarrow> rb_iter_run n dir it'; Some (v # vs) })"

end
