(* ===== verification/Utils_RBTree_Props.thy ===== *)
theory Utils_RBTree_Props
  imports Utils_RBTree
begin

text \<open>
  Correctness of the red-black tree: insertion and removal keep the colour and black-height
  invariants and act on the in-order sequence as insertion into and deletion from an ordered list.
\<close>

section \<open>Invariants\<close>

primrec inorder :: "'a rb \<Rightarrow> 'a list" where
  "inorder RNil = []"
| "inorder (RNode c l v r) = inorder l @ v # inorder r"

text \<open>No red node has a red child.\<close>

primrec nrr :: "'a rb \<Rightarrow> bool" where
  "nrr RNil = True"
| "nrr (RNode c l v r) = ((c \<longrightarrow> \<not> rb_node_is_red l \<and> \<not> rb_node_is_red r) \<and> nrr l \<and> nrr r)"

text \<open>\<open>bal t h\<close>: every path of \<open>t\<close> to a null link crosses \<open>h\<close> black nodes.\<close>

primrec bal :: "'a rb \<Rightarrow> nat \<Rightarrow> bool" where
  "bal RNil h = (h = 0)"
| "bal (RNode c l v r) h =
     (if c then bal l h \<and> bal r h else (case h of 0 \<Rightarrow> False | Suc k \<Rightarrow> bal l k \<and> bal r k))"

definition rb_inv :: "'a rb \<Rightarrow> bool" where
  "rb_inv t \<longleftrightarrow> nrr t \<and> (\<exists>h. bal t h) \<and> \<not> rb_node_is_red t"

text \<open>The same for paths: \<open>pbal fs h H\<close> holds when filling the hole with height \<open>h\<close> gives height \<open>H\<close>.\<close>

fun pbal :: "'a frame list \<Rightarrow> nat \<Rightarrow> nat \<Rightarrow> bool" where
  "pbal [] h H = (h = H)"
| "pbal (Fr d c v s # fs) h H = (bal s h \<and> pbal fs (if c then h else Suc h) H)"

fun pnrr :: "'a frame list \<Rightarrow> bool \<Rightarrow> bool" where
  "pnrr [] c0 = True"
| "pnrr (Fr d c v s # fs) c0 = ((c \<longrightarrow> \<not> c0 \<and> \<not> rb_node_is_red s) \<and> nrr s \<and> pnrr fs c)"

fun pre :: "'a frame list \<Rightarrow> 'a list" where
  "pre [] = []"
| "pre (Fr d c v s # fs) = pre fs @ (if d then inorder s @ [v] else [])"

fun post :: "'a frame list \<Rightarrow> 'a list" where
  "post [] = []"
| "post (Fr d c v s # fs) = (if d then [] else v # inorder s) @ post fs"

lemma bal_unique: "bal t h \<Longrightarrow> bal t k \<Longrightarrow> h = k"
proof (induction t arbitrary: h k)
  case (RNode c l v r)
  then show ?case by (auto split: if_splits nat.splits)
qed simp

lemma bal_RNode: "bal (RNode c l v r) h \<longleftrightarrow>
    (if c then bal l h \<and> bal r h else (\<exists>k. h = Suc k \<and> bal l k \<and> bal r k))"
  by (cases h) auto

lemma plug_bal: "bal (plug (Fr d c v s) t) h \<longleftrightarrow>
    (if c then bal t h \<and> bal s h else (\<exists>k. h = Suc k \<and> bal t k \<and> bal s k))"
  by (cases h) auto

lemma zip_bal: "bal (zip_up fs t) H \<longleftrightarrow> (\<exists>h. bal t h \<and> pbal fs h H)"
proof (induction fs arbitrary: t)
  case (Cons f fs)
  obtain d c v s where f: "f = Fr d c v s" by (cases f)
  have "(\<exists>h. bal (plug f t) h \<and> pbal fs h H) \<longleftrightarrow> (\<exists>h. bal t h \<and> pbal (f # fs) h H)"
    unfolding f plug_bal by (cases c) auto
  with Cons show ?case by simp
qed simp

lemma zip_nrr: "nrr (zip_up fs t) \<longleftrightarrow> nrr t \<and> pnrr fs (rb_node_is_red t)"
proof (induction fs arbitrary: t)
  case (Cons f fs)
  then show ?case by (cases f) auto
qed simp

lemma zip_inorder: "inorder (zip_up fs t) = pre fs @ inorder t @ post fs"
proof (induction fs arbitrary: t)
  case (Cons f fs)
  then show ?case by (cases f) auto
qed simp

lemma set_red_simps [simp]:
  "inorder (set_red c t) = inorder t" "rb_node_is_red (set_red c t) \<longleftrightarrow> c \<and> t \<noteq> RNil"
  "val (set_red c (RNode c' l v r)) = v"
  by (cases t; simp)+

lemma nrr_black: "nrr t \<Longrightarrow> nrr (set_red False t)"
  by (cases t) auto

lemma bal_black: "bal t h \<Longrightarrow> \<exists>k. bal (set_red False t) k"
  by (cases t) (auto split: if_splits nat.splits intro: exI [of _ "Suc h"] exI [of _ h])

lemma rb_inv_black: "nrr t \<Longrightarrow> bal t h \<Longrightarrow> rb_inv (set_red False t)"
  by (auto simp: rb_inv_def nrr_black bal_black)

section \<open>Probes\<close>

definition mono_probe :: "'a cmp \<Rightarrow> 'a \<Rightarrow> 'a list \<Rightarrow> bool" where
  "mono_probe cmp n xs \<longleftrightarrow> sorted_wrt (\<lambda>x y. cmp x n \<ge> 0 \<longrightarrow> cmp y n > 0) xs"

definition has_key :: "'a cmp \<Rightarrow> 'a \<Rightarrow> 'a list \<Rightarrow> bool" where
  "has_key cmp n xs \<longleftrightarrow> (\<exists>x\<in>set xs. cmp x n = 0)"

text \<open>Every frame was left in the direction its comparison gives.\<close>

definition pdir :: "'a cmp \<Rightarrow> 'a \<Rightarrow> 'a frame list \<Rightarrow> bool" where
  "pdir cmp n fs \<longleftrightarrow> (\<forall>f\<in>set fs. fdir f = (cmp (fval f) n < 0))"

lemma mono_probe_append:
  "mono_probe cmp n (xs @ ys) \<longleftrightarrow> mono_probe cmp n xs \<and> mono_probe cmp n ys \<and>
     (\<forall>x\<in>set xs. \<forall>y\<in>set ys. cmp x n \<ge> 0 \<longrightarrow> cmp y n > 0)"
  by (simp add: mono_probe_def sorted_wrt_append)

lemma mono_probe_Cons:
  "mono_probe cmp n (x # xs) \<longleftrightarrow> (\<forall>y\<in>set xs. cmp x n \<ge> 0 \<longrightarrow> cmp y n > 0) \<and> mono_probe cmp n xs"
  by (simp add: mono_probe_def)

lemma mono_probe_split:
  assumes "mono_probe cmp n (as @ x # bs)"
  shows "cmp x n < 0 \<Longrightarrow> \<forall>a\<in>set as. cmp a n < 0" and "cmp x n = 0 \<Longrightarrow> \<forall>a\<in>set as. cmp a n < 0"
    and "cmp x n \<ge> 0 \<Longrightarrow> \<forall>b\<in>set bs. cmp b n > 0"
proof -
  from assms have m: "\<forall>a\<in>set as. cmp a n \<ge> 0 \<longrightarrow> cmp x n > 0" "\<forall>b\<in>set bs. cmp x n \<ge> 0 \<longrightarrow> cmp b n > 0"
    by (auto simp: mono_probe_append mono_probe_Cons)
  show "\<forall>a\<in>set as. cmp a n < 0" if "cmp x n < 0" using m(1) that by fastforce
  show "\<forall>a\<in>set as. cmp a n < 0" if "cmp x n = 0" using m(1) that by fastforce
  show "\<forall>b\<in>set bs. cmp b n > 0" if "cmp x n \<ge> 0" using m(2) that by blast
qed


lemma rb_find_loop_Some:
  "mono_probe cmp n (inorder t) \<Longrightarrow> rb_find_loop cmp n t = Some x \<longleftrightarrow> x \<in> set (inorder t) \<and> cmp x n = 0"
proof (induction t)
  case (RNode c l v r)
  note sp = mono_probe_split [of cmp n "inorder l" v "inorder r"]
  from RNode.prems have m: "mono_probe cmp n (inorder l)" "mono_probe cmp n (inorder r)"
    by (auto simp: mono_probe_append mono_probe_Cons)
  consider "cmp v n < 0" | "cmp v n = 0" | "cmp v n > 0" by linarith
  then show ?case
  proof cases
    case 1
    with sp(1) RNode.prems have "\<forall>a\<in>set (inorder l). cmp a n < 0" by simp
    with 1 RNode.IH(2) m show ?thesis by (auto simp: Let_def)
  next
    case 2
    with sp(2,3) RNode.prems
    have "\<forall>a\<in>set (inorder l). cmp a n < 0" "\<forall>b\<in>set (inorder r). cmp b n > 0" by simp_all
    with 2 show ?thesis by (auto simp: Let_def)
  next
    case 3
    with sp(3) RNode.prems have "\<forall>b\<in>set (inorder r). cmp b n > 0" by simp
    with 3 RNode.IH(1) m show ?thesis by (auto simp: Let_def)
  qed
qed simp

lemma pdir_sides:
  assumes "pdir cmp n fs" and "mono_probe cmp n (pre fs @ mid @ post fs)"
    and "\<forall>f\<in>set fs. cmp (fval f) n \<noteq> 0"
  shows "(\<forall>x\<in>set (pre fs). cmp x n < 0) \<and> (\<forall>x\<in>set (post fs). cmp x n > 0)"
  using assms
proof (induction fs arbitrary: mid)
  case (Cons f fs)
  obtain d c v s where f: "f = Fr d c v s" by (cases f)
  from Cons.prems(1,3) f have pd: "pdir cmp n fs" "\<forall>f\<in>set fs. cmp (fval f) n \<noteq> 0"
    and v: "d = (cmp v n < 0)" "cmp v n \<noteq> 0" by (simp_all add: pdir_def)
  show ?case
  proof (cases d)
    case True
    with f Cons.prems(2) have m: "mono_probe cmp n (pre fs @ (inorder s @ v # mid) @ post fs)" by simp
    then have "mono_probe cmp n ((pre fs @ inorder s) @ v # (mid @ post fs))" by simp
    with True v have "\<forall>a\<in>set (pre fs @ inorder s). cmp a n < 0"
      using mono_probe_split(1) [of cmp n "pre fs @ inorder s" v "mid @ post fs"] by simp
    with Cons.IH [OF pd(1) m pd(2)] True f v show ?thesis by auto
  next
    case False
    with f Cons.prems(2) have m: "mono_probe cmp n (pre fs @ (mid @ v # inorder s) @ post fs)" by simp
    then have "mono_probe cmp n ((pre fs @ mid) @ v # (inorder s @ post fs))" by simp
    with False v have "\<forall>a\<in>set (inorder s @ post fs). cmp a n > 0"
      using mono_probe_split(3) [of cmp n "pre fs @ mid" v "inorder s @ post fs"] by simp
    with Cons.IH [OF pd(1) m pd(2)] False f v show ?thesis by auto
  qed
qed simp

section \<open>Insertion\<close>

text \<open>A node that is black, not null, and has at most one red child stays as it is when visited.\<close>

definition calm :: "'a rb \<Rightarrow> bool" where
  "calm t \<longleftrightarrow> t \<noteq> RNil \<and> \<not> rb_node_is_red t \<and> \<not> (rb_node_is_red (link0 t) \<and> rb_node_is_red (link1 t))"

lemma calmE:
  assumes "calm t" obtains l v r where "t = RNode False l v r" "\<not> (rb_node_is_red l \<and> rb_node_is_red r)"
  using assms by (cases t) (auto simp: calm_def)

text \<open>The loop invariant of the insertion walk.\<close>

definition ins_safe :: "bool \<Rightarrow> bool \<Rightarrow> 'a frame list \<Rightarrow> 'a rb \<Rightarrow> bool" where
  "ins_safe sg st fs q \<longleftrightarrow> (case fs of [] \<Rightarrow> \<not> rb_node_is_red q \<and> q \<noteq> RNil
     | Fr d c v s # up \<Rightarrow>
         (c \<longrightarrow> calm q \<or> (\<not> sg \<and> \<not> st \<and> (\<exists>gd gv gs up'. up = Fr gd False gv gs # up' \<and> \<not> rb_node_is_red gs))) \<and>
         (rb_node_is_red q \<longrightarrow> \<not> sg \<and> \<not> c \<and> \<not> rb_node_is_red s))"


definition ins_seq :: "'a cmp \<Rightarrow> 'a \<Rightarrow> 'a list \<Rightarrow> 'a list" where
  "ins_seq cmp n xs = (if has_key cmp n xs then xs
     else filter (\<lambda>x. cmp x n < 0) xs @ n # filter (\<lambda>x. cmp x n > 0) xs)"

lemma down_plug: "down d q = Some (f, c) \<Longrightarrow> plug f c = q"
  by (cases q) (auto split: if_splits)

lemma fix_calm:
  "(rb_node_is_red q \<Longrightarrow> fs \<noteq> [] \<Longrightarrow> \<not> fred (hd fs)) \<Longrightarrow> rb_insert_fix sg st fs q = Some (fs, q, False, sg)"
  by (cases fs) auto

lemma fix_single:
  "rb_node_is_red q \<Longrightarrow> rb_insert_fix False False (Fr d True pv ps # Fr d False gv gs # up) q =
     Some (Fr d False pv (plug (Fr d True gv gs) ps) # up, q, False, True)"
  by (cases d) simp_all

lemma fix_double:
  "rb_insert_fix False False (Fr (\<not> d) True pv ps # Fr d False gv gs # up) (RNode True ql qv qr) =
     Some (up, (if d then RNode False (RNode True gs gv ql) qv (RNode True qr pv ps)
                else RNode False (RNode True ps pv ql) qv (RNode True qr gv gs)), True, True)"
  by (cases d) simp_all

text \<open>What holds of a walk in progress.\<close>

definition ins_walk :: "'a cmp \<Rightarrow> 'a \<Rightarrow> 'a list \<Rightarrow> nat \<Rightarrow> 'a frame list \<Rightarrow> 'a rb \<Rightarrow> bool" where
  "ins_walk cmp n xs H fs q \<longleftrightarrow> nrr (zip_up fs q) \<and> bal (zip_up fs q) H \<and> inorder (zip_up fs q) = xs \<and>
     pdir cmp n fs \<and> (\<forall>f\<in>set fs. cmp (fval f) n \<noteq> 0)"

lemma ins_walk_nrr: "ins_walk cmp n xs H fs q \<Longrightarrow> nrr q"
  by (simp add: ins_walk_def zip_nrr)

lemma ins_walk_down:
  assumes "ins_walk cmp n xs H fs q" and "down (cmp (val q) n < 0) q = Some (f, c)" "cmp (val q) n \<noteq> 0"
  shows "ins_walk cmp n xs H (f # fs) c"
  using assms down_plug [OF assms(2)]
  by (cases q) (auto simp: ins_walk_def pdir_def split: if_splits)

lemma ins_walk_stop:
  assumes "ins_walk cmp n xs H fs q" and "q \<noteq> RNil" and "cmp (val q) n = 0"
  shows "nrr (zip_up fs q) \<and> bal (zip_up fs q) H \<and> inorder (zip_up fs q) = ins_seq cmp n xs"
proof -
  have "val q \<in> set (inorder (zip_up fs q))" using assms(2) by (cases q) (auto simp: zip_inorder)
  with assms show ?thesis by (auto simp: ins_walk_def ins_seq_def has_key_def)
qed

lemma ins_walk_flip:
  assumes "ins_walk cmp n xs H fs (RNode c l v r)" and "rb_node_is_red l" "rb_node_is_red r"
    and "fs \<noteq> [] \<longrightarrow> \<not> fred (hd fs)"
  shows "ins_walk cmp n xs H fs (RNode True (set_red False l) v (set_red False r))"
proof -
  obtain ll lv lr rl rv rr where lr: "l = RNode True ll lv lr" "r = RNode True rl rv rr"
    using assms(2,3) by (cases l; cases r) auto
  have "pnrr fs c' = pnrr fs True" for c' using assms(4) by (cases fs; cases "hd fs") auto
  with assms(1) lr show ?thesis
    by (auto simp: ins_walk_def zip_nrr zip_bal zip_inorder split: nat.splits)
qed


lemma ins_walk_new:
  assumes "ins_walk cmp n xs H fs RNil" and "mono_probe cmp n xs"
    and "nrr t" "bal t H" "inorder t = pre fs @ n # post fs"
  shows "nrr t \<and> bal t H \<and> inorder t = ins_seq cmp n xs"
proof -
  have d: "pdir cmp n fs" "\<forall>f\<in>set fs. cmp (fval f) n \<noteq> 0" and xs: "xs = pre fs @ [] @ post fs"
    using assms(1) by (auto simp: ins_walk_def zip_inorder)
  have *: "\<forall>a\<in>set (pre fs). cmp a n < 0" "\<forall>b\<in>set (post fs). cmp b n > 0"
    using pdir_sides [OF d(1) assms(2) [unfolded xs] d(2)] by auto
  then have "filter (\<lambda>x. cmp x n < 0) (pre fs) = pre fs" "filter (\<lambda>x. cmp x n < 0) (post fs) = []"
    "filter (\<lambda>x. cmp x n > 0) (pre fs) = []" "filter (\<lambda>x. cmp x n > 0) (post fs) = post fs"
    by (auto simp: filter_id_conv filter_empty_conv dest: less_imp_not_less)
  with * have "ins_seq cmp n xs = pre fs @ n # post fs"
    by (fastforce simp: ins_seq_def has_key_def xs)
  with assms show ?thesis by simp
qed

text \<open>The tree after a rotation at a red parent and its black grandparent, when \<open>q\<close> has turned red.\<close>

lemma rot_single_inv:
  assumes "nrr (zip_up (Fr d True pv ps # Fr d False gv gs # up) q)"
    and "bal (zip_up (Fr d True pv ps # Fr d False gv gs # up) q) H"
    and "\<not> rb_node_is_red gs" and "nrr q'" "\<And>h. bal q h \<Longrightarrow> bal q' h" "inorder q' = m"
  shows "nrr (zip_up (Fr d False pv (plug (Fr d True gv gs) ps) # up) q')"
    and "bal (zip_up (Fr d False pv (plug (Fr d True gv gs) ps) # up) q') H"
    and "inorder (zip_up (Fr d False pv (plug (Fr d True gv gs) ps) # up) q') =
       pre (Fr d True pv ps # Fr d False gv gs # up) @ m @ post (Fr d True pv ps # Fr d False gv gs # up)"
  using assms by (fastforce simp: zip_nrr zip_bal zip_inorder bal_RNode simp del: bal.simps(2))+

definition top2 :: "bool \<Rightarrow> 'a \<Rightarrow> 'a rb \<Rightarrow> 'a \<Rightarrow> 'a rb \<Rightarrow> 'a rb \<Rightarrow> 'a \<Rightarrow> 'a rb \<Rightarrow> 'a rb" where
  "top2 d pv ps gv gs ql qv qr =
     (if d then RNode False (RNode True gs gv ql) qv (RNode True qr pv ps)
      else RNode False (RNode True ps pv ql) qv (RNode True qr gv gs))"

lemma rot_double_inv:
  assumes "nrr (zip_up (Fr (\<not> d) True pv ps # Fr d False gv gs # up) q)"
    and "bal (zip_up (Fr (\<not> d) True pv ps # Fr d False gv gs # up) q) H"
    and "\<not> rb_node_is_red gs" and "nrr (RNode True ql qv qr)" "\<And>h. bal q h \<Longrightarrow> bal (RNode True ql qv qr) h"
    and "inorder ql @ qv # inorder qr = m"
  shows "nrr (zip_up up (top2 d pv ps gv gs ql qv qr))"
    and "bal (zip_up up (top2 d pv ps gv gs ql qv qr)) H"
    and "inorder (zip_up up (top2 d pv ps gv gs ql qv qr)) =
       pre (Fr (\<not> d) True pv ps # Fr d False gv gs # up) @ m @ post (Fr (\<not> d) True pv ps # Fr d False gv gs # up)"
  using assms by (fastforce simp: zip_nrr zip_bal zip_inorder top2_def bal_RNode simp del: bal.simps(2))+

definition ins_ok :: "'a cmp \<Rightarrow> 'a \<Rightarrow> 'a list \<Rightarrow> nat \<Rightarrow> bool \<Rightarrow> bool \<Rightarrow> 'a frame list \<Rightarrow> 'a rb \<Rightarrow> bool" where
  "ins_ok cmp n xs H sg st fs q \<longleftrightarrow> (\<exists>t. rb_insert_loop cmp (rb_node_init n) n sg st fs q = Some t \<and>
     nrr t \<and> bal t H \<and> inorder t = ins_seq cmp n xs)"

lemma size_set_red [simp]: "size (set_red c t) = size t"
  by (cases t) auto

lemma flip_inv:
  assumes "nrr (RNode c l v r)" "rb_node_is_red l" "rb_node_is_red r"
  shows "nrr (RNode True (set_red False l) v (set_red False r))"
    and "bal (RNode c l v r) h \<Longrightarrow> bal (RNode True (set_red False l) v (set_red False r)) h"
    and "calm (set_red False l)" and "calm (set_red False r)"
proof -
  obtain ll lv lr rl rv rr where "l = RNode True ll lv lr" "r = RNode True rl rv rr"
    using assms(2,3) by (cases l; cases r) auto
  with assms(1) show "nrr (RNode True (set_red False l) v (set_red False r))"
    "bal (RNode c l v r) h \<Longrightarrow> bal (RNode True (set_red False l) v (set_red False r)) h"
    "calm (set_red False l)" "calm (set_red False r)"
    by (auto simp: calm_def bal_RNode simp del: bal.simps(2))
qed

lemma calm_safe: "calm q \<Longrightarrow> fs \<noteq> [] \<Longrightarrow> ins_safe sg st fs q"
  by (cases fs; cases "hd fs") (auto simp: ins_safe_def calm_def)

text \<open>One pass that turns \<open>q\<close> red and leaves the rest of the walk in place.\<close>

lemma ins_ok_next:
  assumes fx: "rb_insert_fix sg st fs (rb_insert_visit (rb_node_init n) q) = Some (fs', RNode c l v r, sg', st')"
    and walk: "ins_walk cmp n xs H fs' (RNode c l v r)"
    and left: "cmp v n > 0 \<Longrightarrow> ins_walk cmp n xs H (Fr False c v r # fs') l
      \<Longrightarrow> ins_ok cmp n xs H sg' st' (Fr False c v r # fs') l"
    and right: "cmp v n < 0 \<Longrightarrow> ins_walk cmp n xs H (Fr True c v l # fs') r
      \<Longrightarrow> ins_ok cmp n xs H sg' st' (Fr True c v l # fs') r"
  shows "ins_ok cmp n xs H sg st fs q"
proof -
  consider "cmp v n = 0" | "cmp v n < 0" | "cmp v n > 0" by linarith
  then show ?thesis
  proof cases
    case 1
    with fx ins_walk_stop [OF walk] show ?thesis
      by (auto simp: ins_ok_def rb_insert_loop.simps [of _ _ _ sg])
  next
    case 2
    with right ins_walk_down [OF walk, of "Fr True c v l" r] have
      "ins_ok cmp n xs H sg' st' (Fr True c v l # fs') r" by simp
    with 2 fx show ?thesis by (simp add: ins_ok_def rb_insert_loop.simps [of _ _ _ sg])
  next
    case 3
    with left ins_walk_down [OF walk, of "Fr False c v r" l] have
      "ins_ok cmp n xs H sg' st' (Fr False c v r # fs') l" by simp
    with 3 fx show ?thesis by (simp add: ins_ok_def rb_insert_loop.simps [of _ _ _ sg])
  qed
qed

definition ins_hyp :: "'a cmp \<Rightarrow> 'a \<Rightarrow> 'a list \<Rightarrow> nat \<Rightarrow> nat \<Rightarrow> bool" where
  "ins_hyp cmp n xs H m \<longleftrightarrow> (\<forall>sg st fs q. size q < m \<longrightarrow> ins_walk cmp n xs H fs q \<longrightarrow> ins_safe sg st fs q
     \<longrightarrow> ins_ok cmp n xs H sg st fs q)"

lemma ins_hypD: "ins_hyp cmp n xs H m \<Longrightarrow> size q < m \<Longrightarrow> ins_walk cmp n xs H fs q \<Longrightarrow> ins_safe sg st fs q
    \<Longrightarrow> ins_ok cmp n xs H sg st fs q"
  by (auto simp: ins_hyp_def)

lemma ins_ok_black:
  assumes walk: "ins_walk cmp n xs H fs (RNode c l v r)" and red: "rb_node_is_red l" "rb_node_is_red r"
    and p: "fs \<noteq> [] \<longrightarrow> \<not> fred (hd fs)" and IH: "ins_hyp cmp n xs H (size (RNode c l v r))"
  shows "ins_ok cmp n xs H sg st fs (RNode c l v r)"
proof -
  note flip = flip_inv [OF ins_walk_nrr [OF walk] red]
  show ?thesis
  proof (rule ins_ok_next)
    show "rb_insert_fix sg st fs (rb_insert_visit (rb_node_init n) (RNode c l v r)) =
        Some (fs, RNode True (set_red False l) v (set_red False r), False, sg)"
      using red p by (simp add: fix_calm)
    show "ins_walk cmp n xs H fs (RNode True (set_red False l) v (set_red False r))"
      by (rule ins_walk_flip [OF walk red p])
  qed (auto intro!: ins_hypD [OF IH] calm_safe flip)
qed

lemma ins_ok_pass:
  assumes walk: "ins_walk cmp n xs H fs (RNode c l v r)" and safe: "ins_safe sg st fs (RNode c l v r)"
    and nr: "\<not> (rb_node_is_red l \<and> rb_node_is_red r)" and IH: "ins_hyp cmp n xs H (size (RNode c l v r))"
  shows "ins_ok cmp n xs H sg st fs (RNode c l v r)"
proof -
  note n = ins_walk_nrr [OF walk]
  have p: "\<not> (c \<and> fs \<noteq> [] \<and> fred (hd fs))" using safe
    by (cases fs; cases "hd fs") (auto simp: ins_safe_def)
  have safe': "ins_safe False sg (Fr d c v s # fs) t" if "\<not> (rb_node_is_red s \<and> rb_node_is_red t)"
      "c \<longrightarrow> \<not> rb_node_is_red t" for d s t
    using safe that by (cases fs; cases "hd fs") (auto simp: ins_safe_def)
  show ?thesis
  proof (rule ins_ok_next [OF _ walk])
    show "rb_insert_fix sg st fs (rb_insert_visit (rb_node_init n) (RNode c l v r)) =
        Some (fs, RNode c l v r, False, sg)"
      using nr p fix_calm [of "RNode c l v r" fs sg st] by auto
  qed (use n nr in \<open>auto intro!: ins_hypD [OF IH] safe'\<close>)
qed

lemma ins_walk_single:
  assumes "ins_walk cmp n xs H (Fr d True pv ps # Fr d False gv gs # up) q" "\<not> rb_node_is_red gs"
    and "nrr q'" "\<And>h. bal q h \<Longrightarrow> bal q' h" "inorder q' = inorder q"
  shows "ins_walk cmp n xs H (Fr d False pv (plug (Fr d True gv gs) ps) # up) q'"
proof -
  note w = assms(1) [unfolded ins_walk_def]
  note inv = rot_single_inv [OF conjunct1 [OF w] conjunct1 [OF conjunct2 [OF w]] assms(2-5)]
  show ?thesis unfolding ins_walk_def
    using w inv(1,2) by (cases d) (simp_all add: zip_inorder pdir_def assms(5) del: zip_up.simps)
qed

lemma ins_walk_double:
  assumes "ins_walk cmp n xs H (Fr (\<not> d) True pv ps # Fr d False gv gs # up) q" "\<not> rb_node_is_red gs"
    and "nrr (RNode True ql qv qr)" "\<And>h. bal q h \<Longrightarrow> bal (RNode True ql qv qr) h"
    and "inorder ql @ qv # inorder qr = inorder q"
  shows "ins_walk cmp n xs H up (top2 d pv ps gv gs ql qv qr)"
proof -
  note w = assms(1) [unfolded ins_walk_def]
  note inv = rot_double_inv [OF conjunct1 [OF w] conjunct1 [OF conjunct2 [OF w]] assms(2-5)]
  show ?thesis unfolding ins_walk_def
    using w inv(1,2) by (cases d) (simp_all add: zip_inorder pdir_def top2_def assms(5) [symmetric] del: zip_up.simps)
qed

lemma ins_ok_single:
  assumes walk: "ins_walk cmp n xs H (Fr d True pv ps # Fr d False gv gs # up) (RNode c l v r)"
    and red: "rb_node_is_red l" "rb_node_is_red r" and gs: "\<not> rb_node_is_red gs"
    and IH: "ins_hyp cmp n xs H (size (RNode c l v r))"
  shows "ins_ok cmp n xs H False False (Fr d True pv ps # Fr d False gv gs # up) (RNode c l v r)"
proof -
  note flip = flip_inv [OF ins_walk_nrr [OF walk] red]
  show ?thesis
  proof (rule ins_ok_next)
    show "rb_insert_fix False False (Fr d True pv ps # Fr d False gv gs # up)
        (rb_insert_visit (rb_node_init n) (RNode c l v r)) =
      Some (Fr d False pv (plug (Fr d True gv gs) ps) # up,
        RNode True (set_red False l) v (set_red False r), False, True)"
      using red by (simp add: fix_single del: plug.simps rb_insert_fix.simps)
    show "ins_walk cmp n xs H (Fr d False pv (plug (Fr d True gv gs) ps) # up)
        (RNode True (set_red False l) v (set_red False r))"
      by (rule ins_walk_single [OF walk gs flip(1,2)]) simp_all
  qed (auto intro!: ins_hypD [OF IH] calm_safe flip)
qed

text \<open>A red node whose parent is the new top: both flags are spent on the way to its child.\<close>

lemma ins_ok_through:
  assumes walk: "ins_walk cmp n xs H (Fr e False v s # up) (RNode True a w b)"
    and child: "calm (if cmp w n < 0 then b else a)" "size (if cmp w n < 0 then b else a) < m"
    and IH: "ins_hyp cmp n xs H m" and w: "cmp w n \<noteq> 0"
  shows "ins_ok cmp n xs H sg st (Fr e False v s # up) (RNode True a w b)"
proof (rule ins_ok_next [OF _ walk])
  show "rb_insert_fix sg st (Fr e False v s # up) (rb_insert_visit (rb_node_init n) (RNode True a w b)) =
      Some (Fr e False v s # up, RNode True a w b, False, sg)"
    using ins_walk_nrr [OF walk] by simp
  show "ins_ok cmp n xs H False sg (Fr False True w b # Fr e False v s # up) a"
    if "cmp w n > 0" "ins_walk cmp n xs H (Fr False True w b # Fr e False v s # up) a"
    using that child by (intro ins_hypD [OF IH] calm_safe) simp_all
  show "ins_ok cmp n xs H False sg (Fr True True w a # Fr e False v s # up) b"
    if "cmp w n < 0" "ins_walk cmp n xs H (Fr True True w a # Fr e False v s # up) b"
    using that child by (intro ins_hypD [OF IH] calm_safe) simp_all
qed

lemma ins_ok_double:
  assumes walk: "ins_walk cmp n xs H (Fr (\<not> d) True pv ps # Fr d False gv gs # up) (RNode c l v r)"
    and red: "rb_node_is_red l" "rb_node_is_red r" and gs: "\<not> rb_node_is_red gs"
    and IH: "ins_hyp cmp n xs H (size (RNode c l v r))"
  shows "ins_ok cmp n xs H False False (Fr (\<not> d) True pv ps # Fr d False gv gs # up) (RNode c l v r)"
proof -
  note flip = flip_inv [OF ins_walk_nrr [OF walk] red]
  have cmps: "d \<longleftrightarrow> cmp pv n > 0" "d \<longleftrightarrow> cmp gv n < 0" "cmp pv n \<noteq> 0" "cmp gv n \<noteq> 0"
    using walk by (auto simp: ins_walk_def pdir_def)
  have fx: "rb_insert_fix False False (Fr (\<not> d) True pv ps # Fr d False gv gs # up)
      (rb_insert_visit (rb_node_init n) (RNode c l v r)) =
      Some (up, top2 d pv ps gv gs (set_red False l) v (set_red False r), True, True)"
    using red by (simp add: fix_double top2_def del: rb_insert_fix.simps)
  have walk': "ins_walk cmp n xs H up (top2 d pv ps gv gs (set_red False l) v (set_red False r))"
    by (rule ins_walk_double [OF walk gs flip(1,2)]) simp_all
  show ?thesis
  proof (cases d)
    case True
    note t = top2_def if_P [OF True]
    from True cmps have c: "cmp gv n < 0" "cmp pv n > 0" by simp_all
    show ?thesis
      by (rule ins_ok_next [OF fx [unfolded t] walk' [unfolded t]]; rule ins_ok_through [OF _ _ _ IH])
        (use c flip in simp_all)
  next
    case False
    note t = top2_def if_not_P [OF False]
    from False cmps have c: "cmp gv n > 0" "cmp pv n < 0" by simp_all
    show ?thesis
      by (rule ins_ok_next [OF fx [unfolded t] walk' [unfolded t]]; rule ins_ok_through [OF _ _ _ IH])
        (use c flip in simp_all)
  qed
qed

lemma ins_ok_new:
  assumes walk: "ins_walk cmp n xs H fs RNil" and m: "mono_probe cmp n xs" and n: "cmp n n = 0"
    and fx: "rb_insert_fix sg st fs (rb_node_init n) = Some (fs', q', sg', st')" and q': "val q' = n"
    and t: "nrr (zip_up fs' q')" "bal (zip_up fs' q') H" "inorder (zip_up fs' q') = pre fs @ n # post fs"
  shows "ins_ok cmp n xs H sg st fs RNil"
  using ins_walk_new [OF walk m t] fx q' n
  by (simp add: ins_ok_def rb_insert_loop.simps [of _ _ _ sg])

lemma ins_ok_nil:
  assumes walk: "ins_walk cmp n xs H fs RNil" and safe: "ins_safe sg st fs RNil"
    and m: "mono_probe cmp n xs" and n: "cmp n n = 0"
  shows "ins_ok cmp n xs H sg st fs RNil"
proof -
  obtain d c v s up where fs: "fs = Fr d c v s # up" using safe
    by (cases fs; cases "hd fs") (auto simp: ins_safe_def)
  have node: "nrr (rb_node_init n)" "bal (rb_node_init n) 0" "inorder (rb_node_init n) = [n]"
    "rb_node_is_red (rb_node_init n)" "val (rb_node_init n) = n" by (simp_all add: rb_node_init_def)
  have b: "bal RNil h \<Longrightarrow> bal (rb_node_init n) h" for h by (simp add: rb_node_init_def)
  have w: "nrr (zip_up fs RNil)" "bal (zip_up fs RNil) H" using walk by (simp_all add: ins_walk_def)
  show ?thesis
  proof (cases c)
    case False
    have "nrr (zip_up fs (rb_node_init n))" using w(1) node False fs by (simp add: zip_nrr del: zip_up.simps)
    moreover have "bal (zip_up fs (rb_node_init n)) H" using w(2) node b fs by (auto simp: zip_bal simp del: zip_up.simps)
    ultimately show ?thesis using fs False node
      by (intro ins_ok_new [OF walk m n, of _ _ fs "rb_node_init n" False sg])
        (simp_all add: fix_calm zip_inorder del: zip_up.simps pre.simps post.simps)
  next
    case True
    with safe obtain gd gv gs up' where up: "up = Fr gd False gv gs # up'" and gs: "\<not> rb_node_is_red gs"
      and "\<not> sg" "\<not> st" by (auto simp: ins_safe_def fs calm_def)
    show ?thesis
    proof (cases "gd = d")
      case True
      note fs' = fs [unfolded \<open>c\<close> [THEN eqTrueI] up True]
      show ?thesis unfolding fs' using \<open>\<not> sg\<close> \<open>\<not> st\<close>
          rot_single_inv [OF w(1) [unfolded fs'] w(2) [unfolded fs'] gs node(1) b node(3)] node
        by (intro ins_ok_new [OF walk [unfolded fs'] m n]) (simp_all only: fix_single append.simps)
    next
      case False
      then have "d = (\<not> gd)" by blast
      note fs' = fs [unfolded \<open>c\<close> [THEN eqTrueI] up this]
      have i: "inorder RNil @ n # inorder RNil = [n]" by simp
      note inv = rot_double_inv [OF w(1) [unfolded fs'] w(2) [unfolded fs'] gs
          node(1) [unfolded rb_node_init_def] b [unfolded rb_node_init_def] i]
      show ?thesis unfolding fs'
      proof (rule ins_ok_new [OF walk [unfolded fs'] m n])
        show "rb_insert_fix sg st (Fr (\<not> gd) True v s # Fr gd False gv gs # up') (rb_node_init n) =
            Some (up', top2 gd v s gv gs RNil n RNil, True, True)"
          using \<open>\<not> sg\<close> \<open>\<not> st\<close> by (simp add: fix_double rb_node_init_def top2_def del: rb_insert_fix.simps)
      qed (use inv in \<open>simp_all only: append.simps\<close>, simp add: top2_def)
    qed
  qed
qed

lemma ins_ok_all:
  assumes "mono_probe cmp n xs" and "cmp n n = 0"
  shows "ins_walk cmp n xs H fs q \<Longrightarrow> ins_safe sg st fs q \<Longrightarrow> ins_ok cmp n xs H sg st fs q"
proof (induction "size q" arbitrary: sg st fs q rule: less_induct)
  case less
  then have IH: "ins_hyp cmp n xs H (size q)" by (auto simp: ins_hyp_def)
  show ?case
  proof (cases q)
    case RNil
    with less.prems assms show ?thesis by (auto intro: ins_ok_nil)
  next
    case (RNode c l v r)
    note walk = less.prems(1) [unfolded RNode] and IH' = IH [unfolded RNode]
    show ?thesis
    proof (cases "rb_node_is_red l \<and> rb_node_is_red r")
      case False
      with walk less.prems(2) IH' show ?thesis unfolding RNode by (intro ins_ok_pass) simp_all
    next
      case True
      show ?thesis
      proof (cases "fs \<noteq> [] \<and> fred (hd fs)")
        case False
        with walk IH' True show ?thesis unfolding RNode by (intro ins_ok_black) auto
      next
        case red: True
        then obtain d v s up where fs: "fs = Fr d True v s # up" by (cases fs; cases "hd fs") auto
        with less.prems(2) True obtain gd gv gs up' where up: "up = Fr gd False gv gs # up'"
          and gs: "\<not> rb_node_is_red gs" and "\<not> sg" "\<not> st" by (auto simp: ins_safe_def RNode calm_def)
        then show ?thesis using walk True IH'
            ins_ok_double [of cmp n xs H "\<not> d" v s gv gs up'] ins_ok_single [of cmp n xs H d v s gv gs up']
          by (cases "gd = d") (simp_all add: fs RNode)
      qed
    qed
  qed
qed


lemma rb_insert_correct:
  assumes "rb_inv t" and "mono_probe cmp n (inorder t)" and "cmp n n = 0" and "t \<noteq> RNil"
  obtains t' h where "rb_insert_loop cmp (rb_node_init n) n False False [] t = Some t'" "nrr t'" "bal t' h"
    "inorder t' = ins_seq cmp n (inorder t)"
proof -
  obtain h where "bal t h" using assms(1) by (auto simp: rb_inv_def)
  with assms have "ins_walk cmp n (inorder t) h [] t" "ins_safe False False [] t"
    by (auto simp: ins_walk_def ins_safe_def pdir_def rb_inv_def)
  from ins_ok_all [OF assms(2,3) this] that show thesis by (auto simp: ins_ok_def)
qed

lemma rb_tree_insert_node_correct:
  assumes "rb_inv (root T)" and "mono_probe cmp n (inorder (root T))" and "cmp n n = 0"
  shows "\<exists>T'. rb_tree_insert_node cmp T (rb_node_init n) = Some (1, T') \<and> rb_inv (root T') \<and>
    inorder (root T') = ins_seq cmp n (inorder (root T)) \<and> rb_size T' = rb_size T + 1"
proof (cases "root T = RNil")
  case True
  then show ?thesis
    by (auto simp: rb_tree_insert_node_def rb_node_init_def rb_inv_def ins_seq_def has_key_def
        intro: exI [of _ "Suc 0"])
next
  case False
  from rb_insert_correct [OF assms this] obtain t h where
    "rb_insert_loop cmp (rb_node_init n) n False False [] (root T) = Some t" "nrr t" "bal t h"
    "inorder t = ins_seq cmp n (inorder (root T))" .
  with False show ?thesis by (auto simp: rb_tree_insert_node_def rb_inv_black rb_node_init_def)
qed

section \<open>Removal\<close>

text \<open>The walk keeps the current node or its parent red, except below a black root with two black children.\<close>

definition rem_ready :: "'a frame list \<Rightarrow> 'a rb \<Rightarrow> bool" where
  "rem_ready fs c \<longleftrightarrow> fs = [] \<or> fred (hd fs) \<or> rb_node_is_red c \<or>
     (\<exists>d v s. fs = [Fr d False v s] \<and> \<not> rb_node_is_red s)"

definition rem_tree :: "'a frame list \<Rightarrow> 'a rb \<Rightarrow> bool" where
  "rem_tree fs c \<longleftrightarrow> nrr (zip_up fs c) \<and> (\<exists>h. bal (zip_up fs c) h) \<and> rem_ready fs c"

text \<open>What one push does: the subtree to continue in is untouched, and so is the sequence on both sides.\<close>

definition push_ok :: "bool \<Rightarrow> 'a frame list \<Rightarrow> 'a rb \<Rightarrow> 'a frame list \<Rightarrow> 'a rb \<Rightarrow> bool" where
  "push_ok dir fs q fs' q' \<longleftrightarrow> q' \<noteq> RNil \<and> val q' = val q \<and> link dir q' = link dir q \<and>
     (let F = Fr dir (red q') (val q) (link (\<not> dir) q') # fs'; F0 = Fr dir (red q) (val q) (link (\<not> dir) q) # fs in
      pre F = pre F0 \<and> post F = post F0 \<and> fval ` set F0 \<subseteq> fval ` set F \<and> rem_tree F (link dir q))"

lemma push_keep:
  assumes "rem_tree fs (RNode c l v r)"
    and "c \<or> rb_node_is_red (link dir (RNode c l v r)) \<or> fs = [] \<and> \<not> rb_node_is_red (link (\<not> dir) (RNode c l v r))"
  shows "push_ok dir fs (RNode c l v r) fs (RNode c l v r)"
  using assms by (cases dir) (auto simp: push_ok_def rem_tree_def rem_ready_def Let_def)

lemma push_rotate:
  assumes "rem_tree fs (RNode False l v r)"
    and "\<not> rb_node_is_red (link dir (RNode False l v r))" "rb_node_is_red (link (\<not> dir) (RNode False l v r))"
  shows "\<exists>fs' q'. rb_remove_push dir fs (RNode False l v r) = Some (fs', q') \<and>
    push_ok dir fs (RNode False l v r) fs' q'"
proof (cases dir)
  case True
  then obtain a w b where l: "l = RNode True a w b" using assms(3) by (cases l) auto
  have "push_ok True fs (RNode False l v r) (Fr True False w a # fs) (RNode True b v r)"
    using assms True l
    by (auto simp: push_ok_def rem_tree_def rem_ready_def zip_nrr zip_bal bal_RNode simp del: bal.simps(2))
  then show ?thesis using assms True l by (auto simp: rb_remove_push_def)
next
  case False
  then obtain a w b where r: "r = RNode True a w b" using assms(3) by (cases r) auto
  have "push_ok False fs (RNode False l v r) (Fr False False w b # fs) (RNode True l v a)"
    using assms False r
    by (auto simp: push_ok_def rem_tree_def rem_ready_def zip_nrr zip_bal bal_RNode simp del: bal.simps(2))
  then show ?thesis using assms False r by (auto simp: rb_remove_push_def)
qed

text \<open>The black case: the parent is red, or the black root, and the sibling is a black node.\<close>

lemma push_sibling:
  assumes "rem_tree (Fr d c p s # up) (RNode False l v r)"
  shows "(c \<or> up = []) \<and> (\<exists>sl sv sr. s = RNode False sl sv sr)"
proof -
  have r: "\<not> rb_node_is_red s" "c \<or> up = []" using assms
    by (auto simp: rem_tree_def rem_ready_def zip_nrr split: if_splits)
  obtain h where "bal s h" "bal (RNode False l v r) h"
    using assms by (auto simp: rem_tree_def zip_bal simp del: bal.simps zip_up.simps)
  with r show ?thesis by (cases s) (auto split: nat.splits)
qed

lemma rem_tree_parts:
  assumes "rem_tree (Fr d c p s # up) q" and "c \<or> up = []"
  obtains h H where "pnrr up True" "pnrr up False" "nrr q" "nrr s" "bal q h" "bal s h" "pbal up h H"
proof -
  from assms have n: "pnrr up True" "nrr q" "nrr s" by (auto simp: rem_tree_def zip_nrr split: if_splits)
  then have "pnrr up False" by (cases up; cases "hd up") auto
  moreover obtain h H where "bal q h" "bal s h" "pbal up h H"
    using assms by (cases c) (auto simp: rem_tree_def zip_bal simp del: bal.simps zip_up.simps)
  ultimately show thesis using n that by blast
qed

lemma push_recolour:
  assumes t: "rem_tree (Fr d c p s # up) (RNode False l v r)" and up: "c \<or> up = []"
    and "\<not> rb_node_is_red l" "\<not> rb_node_is_red r"
    and s: "s = RNode False sl sv sr" "\<not> rb_node_is_red sl" "\<not> rb_node_is_red sr"
  shows "push_ok dir (Fr d c p s # up) (RNode False l v r) (Fr d False p (set_red True s) # up) (RNode True l v r)"
proof (rule rem_tree_parts [OF t up])
  fix h H
  assume n: "pnrr up True" "pnrr up False" "nrr (RNode False l v r)" "nrr s"
    and b: "bal (RNode False l v r) h" "bal s h" "pbal up h H"
  obtain k where "h = Suc k" using b by (auto split: nat.splits)
  then have "bal (zip_up (Fr dir True v (if dir then l else r) # Fr d False p (set_red True s) # up) (if dir then r else l)) H"
    using b s unfolding zip_bal by (intro exI [of _ k]) auto
  with n assms show ?thesis
    by (cases dir) (auto simp: push_ok_def rem_tree_def rem_ready_def zip_nrr simp del: zip_up.simps)
qed

lemma push_rotated:
  assumes t: "rem_tree (Fr d c p s # up) (RNode False l v r)" and up: "c \<or> up = []"
    and q: "\<not> rb_node_is_red l" "\<not> rb_node_is_red r"
    and s: "nrr x" "nrr y" "\<not> rb_node_is_red y" "\<And>h. bal s (Suc h) \<Longrightarrow> bal x h \<and> bal y (Suc h)"
    and i: "inorder s = (if d then inorder y @ w # inorder x else inorder x @ w # inorder y)"
  shows "push_ok dir (Fr d c p s # up) (RNode False l v r) (Fr d False p x # Fr d True w y # up) (RNode True l v r)"
proof (rule rem_tree_parts [OF t up])
  fix h H
  assume n: "pnrr up True" "pnrr up False" "nrr (RNode False l v r)" "nrr s"
    and b: "bal (RNode False l v r) h" "bal s h" "pbal up h H"
  obtain k where "h = Suc k" using b by (auto split: nat.splits)
  then have "bal (zip_up (Fr dir True v (if dir then l else r) # Fr d False p x # Fr d True w y # up)
      (if dir then r else l)) H"
    using b s unfolding zip_bal by (intro exI [of _ k]) auto
  with n s(1-3) q i show ?thesis
    by (cases dir; cases d) (auto simp: push_ok_def rem_tree_def rem_ready_def zip_nrr simp del: zip_up.simps)
qed

lemma push_correct:
  assumes t: "rem_tree fs (RNode c l v r)"
  shows "\<exists>fs' q'. rb_remove_push dir fs (RNode c l v r) = Some (fs', q') \<and> push_ok dir fs (RNode c l v r) fs' q'"
proof -
  let ?q = "RNode c l v r"
  consider (keep) "c \<or> rb_node_is_red (link dir ?q) \<or> fs = [] \<and> \<not> rb_node_is_red (link (\<not> dir) ?q)"
    | (rotate) "\<not> c" "\<not> rb_node_is_red (link dir ?q)" "rb_node_is_red (link (\<not> dir) ?q)"
    | (black) d pc p s up where "fs = Fr d pc p s # up" "\<not> c" "\<not> rb_node_is_red l" "\<not> rb_node_is_red r"
    by (cases fs; cases "hd fs"; cases dir) auto
  then show ?thesis
  proof cases
    case keep
    then have "rb_remove_push dir fs ?q = Some (fs, ?q)" by (auto simp: rb_remove_push_def)
    with push_keep [OF t keep] show ?thesis by blast
  next
    case rotate
    with push_rotate t show ?thesis by (cases c) auto
  next
    case black
    have t': "rem_tree (Fr d pc p s # up) (RNode False l v r)" using t black by simp
    have q: "?q = RNode False l v r" using black by simp
    from push_sibling [OF t'] obtain sl sv sr where up: "pc \<or> up = []" and s: "s = RNode False sl sv sr" by blast
    have n: "nrr s" using t' by (auto simp: rem_tree_def zip_nrr split: if_splits)
    consider (rec) "\<not> rb_node_is_red sl" "\<not> rb_node_is_red sr"
      | (dbl) a w b where "link d s = RNode True a w b"
      | (sgl) a w b where "\<not> rb_node_is_red (link d s)" "link (\<not> d) s = RNode True a w b"
      using s by (cases sl; cases sr; cases d) auto
    then show ?thesis
    proof cases
      case rec
      then have "rb_remove_push dir fs ?q = Some (Fr d False p (set_red True s) # up, RNode True l v r)"
        using black s by (cases dir; cases d) (simp_all add: rb_remove_push_def)
      with push_recolour [OF t' up black(3,4) s rec] black show ?thesis by auto
    next
      case dbl
      let ?x = "if d then b else a" and ?y = "if d then RNode False sl sv a else RNode False b sv sr"
      have "rb_remove_push dir fs ?q = Some (Fr d False p ?x # Fr d True w ?y # up, RNode True l v r)"
        using black s dbl by (cases dir; cases d) (simp_all add: rb_remove_push_def)
      moreover have "push_ok dir fs ?q (Fr d False p ?x # Fr d True w ?y # up) (RNode True l v r)"
        unfolding black(1) q
        by (rule push_rotated [OF t' up black(3,4)]) (use n s dbl in \<open>auto split: if_splits\<close>)
      ultimately show ?thesis by blast
    next
      case sgl
      let ?y = "RNode False a w b"
      have "rb_remove_push dir fs ?q = Some (Fr d False p (link d s) # Fr d True sv ?y # up, RNode True l v r)"
        using black s sgl by (cases dir; cases d) (simp_all add: rb_remove_push_def)
      moreover have "push_ok dir fs ?q (Fr d False p (link d s) # Fr d True sv ?y # up) (RNode True l v r)"
        unfolding black(1) q
        by (rule push_rotated [OF t' up black(3,4)]) (use n s sgl in \<open>auto split: if_splits\<close>)
      ultimately show ?thesis by blast
    qed
  qed
qed

definition rem_found :: "'a cmp \<Rightarrow> 'a \<Rightarrow> 'a option \<Rightarrow> 'a frame list \<Rightarrow> bool" where
  "rem_found cmp n f fs \<longleftrightarrow> (\<forall>x\<in>set (pre fs). cmp x n < 0) \<and>
     (case f of None \<Rightarrow> (\<forall>x\<in>set (post fs). cmp x n > 0)
      | Some a \<Rightarrow> cmp a n = 0 \<and> a \<in> fval ` set fs \<and> (\<forall>x\<in>set (post fs). cmp x n \<ge> 0))"

lemma rem_found_step:
  assumes "rem_found cmp n f fs" and m: "mono_probe cmp n (pre fs @ (inorder l @ v # inorder r) @ post fs)"
  shows "rem_found cmp n (if cmp v n = 0 then Some v else f)
    (Fr (cmp v n < 0) c v (if cmp v n < 0 then l else r) # fs)"
proof -
  have m': "mono_probe cmp n ((pre fs @ inorder l) @ v # inorder r @ post fs)" using m by simp
  note sp = mono_probe_split [OF m']
  show ?thesis
  proof (cases "cmp v n < 0")
    case True
    with sp(1) assms(1) show ?thesis by (auto simp: rem_found_def split: option.splits)
  next
    case False
    with sp(3) have "\<forall>x\<in>set (inorder r). cmp x n > 0" by auto
    with False assms(1) show ?thesis by (fastforce simp: rem_found_def split: option.splits)
  qed
qed

lemma rem_found_cong:
  "pre F = pre F0 \<Longrightarrow> post F = post F0 \<Longrightarrow> fval ` set F0 \<subseteq> fval ` set F \<Longrightarrow> rem_found cmp n f F0
    \<Longrightarrow> rem_found cmp n f F"
  by (auto simp: rem_found_def split: option.splits)

lemma rb_remove_loop_correct:
  assumes "mono_probe cmp n xs"
  shows "rem_tree fs c \<Longrightarrow> rem_found cmp n f fs \<Longrightarrow> pre fs @ inorder c @ post fs = xs \<Longrightarrow> fs \<noteq> [] \<or> c \<noteq> RNil \<Longrightarrow>
    \<exists>f' fs'. rb_remove_loop cmp n f fs c = Some (f', fs') \<and> fs' \<noteq> [] \<and> rem_tree fs' RNil \<and>
      rem_found cmp n f' fs' \<and> pre fs' @ post fs' = xs"
proof (induction c arbitrary: f fs)
  case (RNode c l v r)
  define dir where "dir = (cmp v n < 0)"
  define f1 where "f1 = (if cmp v n = 0 then Some v else f)"
  let ?F0 = "Fr dir c v (if dir then l else r) # fs" and ?t = "if dir then r else l"
  obtain fs' q' where p: "rb_remove_push dir fs (RNode c l v r) = Some (fs', q')"
    and ok: "push_ok dir fs (RNode c l v r) fs' q'" using push_correct [OF RNode.prems(1)] by blast
  define F where "F = Fr dir (red q') v (link (\<not> dir) q') # fs'"
  have F: "pre F = pre ?F0" "post F = post ?F0" "fval ` set ?F0 \<subseteq> fval ` set F" "rem_tree F ?t"
    using ok unfolding push_ok_def Let_def F_def by simp_all
  have "rem_found cmp n f1 ?F0"
    unfolding dir_def f1_def using RNode.prems assms by (intro rem_found_step) simp_all
  then have found: "rem_found cmp n f1 F" by (rule rem_found_cong [OF F(1-3)])
  have xs: "pre F @ inorder ?t @ post F = xs" unfolding F(1,2) using RNode.prems(3) by simp
  have ne: "F \<noteq> [] \<or> ?t \<noteq> RNil" by (simp add: F_def)
  have step: "rb_remove_loop cmp n f fs (RNode c l v r) = rb_remove_loop cmp n f1 F ?t"
    using p by (simp add: Let_def F_def dir_def f1_def)
  show ?case
  proof (cases dir)
    case True
    with RNode.IH(2) [of F f1] F(4) found xs ne step show ?thesis by simp
  next
    case False
    with RNode.IH(1) [of F f1] F(4) found xs ne step show ?thesis by simp
  qed
qed simp

text \<open>The node to unlink is a leaf.\<close>

lemma rem_tree_leaf:
  assumes "rem_tree (Fr d c v s # up) RNil"
  shows "s = RNil" and "\<exists>h. nrr (zip_up up RNil) \<and> bal (zip_up up RNil) h"
proof -
  obtain H where n: "\<not> rb_node_is_red s" "nrr s" "pnrr up c" "c \<or> up = []"
    and b: "bal s 0" "pbal up (if c then 0 else 1) H"
    using assms by (auto simp: rem_tree_def rem_ready_def zip_nrr zip_bal simp del: zip_up.simps split: if_splits)
  then show "s = RNil" by (cases s) auto
  have "pnrr up False" using n(3) by (cases up; cases "hd up") auto
  with n b show "\<exists>h. nrr (zip_up up RNil) \<and> bal (zip_up up RNil) h"
    by (cases "up = []") (auto simp: zip_nrr zip_bal)
qed

lemma subst_val_path:
  assumes "a \<in> fval ` set fs" "a \<notin> set (pre fs)" "post fs = a # rest"
  shows "pre (subst_val a b fs) = pre fs" "post (subst_val a b fs) = b # rest"
    and "pnrr (subst_val a b fs) c0 = pnrr fs c0" "pbal (subst_val a b fs) h H = pbal fs h H"
proof -
  have "pre (subst_val a b fs) = pre fs \<and> post (subst_val a b fs) = b # rest" using assms
  proof (induction fs)
    case (Cons f fs)
    then show ?case by (cases f) (auto split: if_splits)
  qed simp
  then show "pre (subst_val a b fs) = pre fs" "post (subst_val a b fs) = b # rest" by simp_all
  show "pnrr (subst_val a b fs) c0 = pnrr fs c0"
    by (induction a b fs arbitrary: c0 rule: subst_val.induct) simp_all
  show "pbal (subst_val a b fs) h H = pbal fs h H"
    by (induction a b fs arbitrary: h rule: subst_val.induct) simp_all
qed

definition del_seq :: "'a cmp \<Rightarrow> 'a \<Rightarrow> 'a list \<Rightarrow> 'a list" where
  "del_seq cmp n xs = filter (\<lambda>x. cmp x n \<noteq> 0) xs"

lemma del_seq_none: "\<forall>x\<in>set xs. cmp x n \<noteq> 0 \<Longrightarrow> del_seq cmp n xs = xs"
  by (simp add: del_seq_def)

text \<open>The found value is the first of those that are not below the probe.\<close>

lemma rem_found_hd:
  assumes "rem_found cmp n (Some a) fs" and m: "mono_probe cmp n (pre fs @ post fs)"
  obtains rest where "post fs = a # rest" "\<forall>x\<in>set rest. cmp x n > 0" "a \<notin> set (pre fs)"
proof -
  from assms(1) have a: "cmp a n = 0" "a \<in> fval ` set fs" "\<forall>x\<in>set (pre fs). cmp x n < 0"
    "\<forall>x\<in>set (post fs). cmp x n \<ge> 0" by (auto simp: rem_found_def)
  have "a \<in> set (pre fs) \<or> a \<in> set (post fs)" using a(2)
  proof (induction fs)
    case (Cons f fs)
    then show ?case by (cases f) auto
  qed simp
  with a have pa: "a \<notin> set (pre fs)" "a \<in> set (post fs)" by force+
  then obtain x rest where x: "post fs = x # rest" by (cases "post fs") auto
  with m have "mono_probe cmp n (pre fs @ x # rest)" by simp
  from mono_probe_split(3) [OF this] a(4) x have rest: "\<forall>y\<in>set rest. cmp y n > 0" by simp
  with pa a(1) x have "x = a" by force
  with x rest pa that show thesis by blast
qed

lemma rb_remove_finish_correct:
  assumes t: "rem_tree fs RNil" and f: "rem_found cmp n f fs" and fs: "fs \<noteq> []"
    and m: "mono_probe cmp n (pre fs @ post fs)"
  shows "nrr (rb_remove_finish f fs) \<and> (\<exists>h. bal (rb_remove_finish f fs) h) \<and>
    inorder (rb_remove_finish f fs) = del_seq cmp n (pre fs @ post fs)"
proof (cases f)
  case None
  with f have "\<forall>x\<in>set (pre fs @ post fs). cmp x n \<noteq> 0" by (auto simp: rem_found_def)
  with None t show ?thesis by (auto simp: rb_remove_finish_def rem_tree_def zip_inorder del_seq_none)
next
  case (Some a)
  from rem_found_hd [OF f [unfolded Some] m] obtain rest
    where post: "post fs = a # rest" "\<forall>x\<in>set rest. cmp x n > 0" "a \<notin> set (pre fs)" .
  from f Some have a: "cmp a n = 0" "a \<in> fval ` set fs" "\<forall>x\<in>set (pre fs). cmp x n < 0" by (auto simp: rem_found_def)
  have "\<forall>x\<in>set (pre fs @ rest). cmp x n \<noteq> 0" using a(3) post(2) by auto
  then have del: "del_seq cmp n (pre fs @ post fs) = pre fs @ rest"
    using a(1) post(1) by (simp add: del_seq_def)
  obtain d c v s up where fs': "fs = Fr d c v s # up" using fs by (cases fs; cases "hd fs") auto
  note leaf = rem_tree_leaf [OF t [unfolded fs']]
  show ?thesis
  proof (cases "v = a")
    case True
    then have "\<not> d" using post(3) fs' by auto
    then have up: "pre fs = pre up" "post up = rest" using post(1) True leaf(1) fs' by simp_all
    have "rb_remove_finish f fs = zip_up up RNil"
      using Some fs' leaf(1) \<open>\<not> d\<close> True by (simp add: rb_remove_finish_def Let_def)
    with leaf(2) show ?thesis unfolding del by (simp add: up zip_inorder)
  next
    case False
    then have d: "d" using post(1) fs' by (auto split: if_splits)
    then have up: "post up = a # rest" "pre fs = pre up @ [v]" "a \<notin> set (pre up)" "a \<in> fval ` set up"
      using post a(2) leaf(1) fs' False by auto
    note sub = subst_val_path [OF up(4,3,1), of v]
    have "rb_remove_finish f fs = zip_up (subst_val a v up) RNil"
      using Some fs' leaf(1) d False by (simp add: rb_remove_finish_def Let_def)
    with leaf(2) del up(2) sub show ?thesis by (simp add: zip_inorder zip_nrr zip_bal)
  qed
qed

lemma rb_tree_remove_correct:
  assumes "rb_inv (root T)" and m: "mono_probe cmp n (inorder (root T))"
  shows "\<exists>T'. rb_tree_remove cmp (Some T) n = Some (1, Some T') \<and> rb_inv (root T') \<and>
    inorder (root T') = del_seq cmp n (inorder (root T)) \<and>
    rb_size T' = (if root T = RNil then rb_size T else rb_size T - 1)"
proof (cases "root T = RNil")
  case True
  with assms show ?thesis by (auto simp: rb_tree_remove_def del_seq_def)
next
  case False
  have "rem_tree [] (root T)" "rem_found cmp n None []"
    using assms(1) by (auto simp: rem_tree_def rb_inv_def rem_ready_def rem_found_def)
  from rb_remove_loop_correct [OF m this] False obtain f fs where
    l: "rb_remove_loop cmp n None [] (root T) = Some (f, fs)" "fs \<noteq> []" "rem_tree fs RNil"
    "rem_found cmp n f fs" "pre fs @ post fs = inorder (root T)" by auto
  from rb_remove_finish_correct [OF l(3,4,2)] m l(5)
  have "rb_inv (set_red False (rb_remove_finish f fs))"
    "inorder (rb_remove_finish f fs) = del_seq cmp n (inorder (root T))" by (auto simp: rb_inv_black)
  with l(1) False show ?thesis by (simp add: rb_tree_remove_def)
qed

section \<open>The self test\<close>

primrec local_order :: "'a cmp \<Rightarrow> 'a rb \<Rightarrow> bool" where
  "local_order cmp RNil = True"
| "local_order cmp (RNode c l v r) \<longleftrightarrow> local_order cmp l \<and> local_order cmp r \<and>
     (l \<noteq> RNil \<longrightarrow> cmp (val l) v < 0) \<and> (r \<noteq> RNil \<longrightarrow> cmp (val r) v > 0)"

lemma rb_tree_test_bal: "rb_tree_test cmp t = Suc h \<longleftrightarrow> nrr t \<and> bal t h \<and> local_order cmp t"
proof (induction t arbitrary: h)
  case (RNode c l v r)
  consider (bad) "rb_tree_test cmp l = 0 \<or> rb_tree_test cmp r = 0"
    | (ok) i j where "rb_tree_test cmp l = Suc i" "rb_tree_test cmp r = Suc j"
    by (cases "rb_tree_test cmp l"; cases "rb_tree_test cmp r") auto
  then show ?case
  proof cases
    case bad
    then have no: "\<not> (nrr l \<and> bal l k \<and> local_order cmp l \<and> nrr r \<and> bal r k \<and> local_order cmp r)" for k
      using RNode.IH(1) [of k] RNode.IH(2) [of k] by auto
    have "rb_tree_test cmp (RNode c l v r) = 0" using bad
      by (cases "rb_tree_test cmp l = 0") (simp_all add: Let_def)
    moreover have "\<not> (nrr (RNode c l v r) \<and> bal (RNode c l v r) h \<and> local_order cmp (RNode c l v r))"
      using no [of h] no [of "h - 1"] by (cases h; cases c) auto
    ultimately show ?thesis by simp
  next
    case ok
    then have f: "nrr l" "nrr r" "local_order cmp l" "local_order cmp r" "bal l i" "bal r j"
      using RNode.IH(1) [of i] RNode.IH(2) [of j] by simp_all
    then have b: "bal l k \<longleftrightarrow> k = i" "bal r k \<longleftrightarrow> k = j" for k by (auto intro: bal_unique)
    show ?thesis
    proof (cases "c \<and> (rb_node_is_red l \<or> rb_node_is_red r) \<or> (l \<noteq> RNil \<and> cmp (val l) v \<ge> 0)
        \<or> (r \<noteq> RNil \<and> cmp (val r) v \<le> 0)")
      case True
      then have "rb_tree_test cmp (RNode c l v r) = 0" by (simp only: rb_tree_test.simps Let_def) argo
      with True show ?thesis by auto
    next
      case False
      then have "rb_tree_test cmp (RNode c l v r) = (if i = j then if c then Suc i else Suc (Suc i) else 0)"
        using ok by (simp add: Let_def) argo
      moreover have "nrr (RNode c l v r)" "local_order cmp (RNode c l v r)" using False f by (simp_all add: not_le) blast
      moreover have "bal (RNode c l v r) h \<longleftrightarrow> i = j \<and> h = (if c then i else Suc i)"
        by (cases h; cases c) (auto simp: b)
      ultimately show ?thesis by (auto simp del: rb_tree_test.simps nrr.simps local_order.simps bal.simps)
    qed
  qed
qed auto

section \<open>Destruction and iteration\<close>

lemma rb_dealloc_loop_inorder: "rb_dealloc_loop t = inorder t"
  by (induction t rule: rb_dealloc_loop.induct) simp_all

primrec rb_height :: "'a rb \<Rightarrow> nat" where
  "rb_height RNil = 0"
| "rb_height (RNode c l v r) = Suc (max (rb_height l) (rb_height r))"

lemma zip_height: "length fs + rb_height t \<le> rb_height (zip_up fs t)"
proof (induction fs arbitrary: t)
  case (Cons f fs)
  obtain d c v s where "f = Fr d c v s" by (cases f)
  with Cons [of "plug f t"] show ?case by auto
qed simp

lemma bal_height: "bal t h \<Longrightarrow> nrr t \<Longrightarrow> rb_height t \<le> 2 * h + (if rb_node_is_red t then 1 else 0)"
proof (induction t arbitrary: h)
  case (RNode c l v r)
  then show ?case by (cases c; cases h) (fastforce split: if_splits)+
qed simp

lemma bal_nodes: "bal t h \<Longrightarrow> 2 ^ h \<le> length (inorder t) + 1"
proof (induction t arbitrary: h)
  case (RNode c l v r)
  then show ?case by (cases c; cases h) fastforce+
qed simp

lemma rb_inv_height:
  assumes "rb_inv t" and "length (inorder t) < 2 ^ k"
  shows "rb_height t \<le> 2 * k"
proof -
  obtain h where h: "bal t h" "nrr t" "\<not> rb_node_is_red t" using assms(1) by (auto simp: rb_inv_def)
  have "(2::nat) ^ h \<le> 2 ^ k" using bal_nodes [OF h(1)] assms(2) by linarith
  then have "h \<le> k" by (simp add: power_le_imp_le_exp)
  with bal_height [OF h(1,2)] h(3) show ?thesis by simp
qed

text \<open>The values still ahead of a node in a direction.\<close>

definition ahead :: "bool \<Rightarrow> 'a frame list \<Rightarrow> 'a rb \<Rightarrow> 'a list" where
  "ahead dir fs t = (if dir then inorder (link True t) @ post fs else rev (pre fs @ inorder (link False t)))"

definition iter_ok :: "'a rb \<Rightarrow> 'a rb_iter \<Rightarrow> bool" where
  "iter_ok T it \<longleftrightarrow> it_node it = RNil \<or> zip_up (it_path it) (it_node it) = T"

definition remaining :: "bool \<Rightarrow> 'a rb_iter \<Rightarrow> 'a list" where
  "remaining dir it = (if it_node it = RNil then [] else val (it_node it) # ahead dir (it_path it) (it_node it))"

lemma rb_iter_push_ok:
  assumes "zip_up fs t = T" "t \<noteq> RNil" "rb_height T \<le> RB_ITER_MAX_HEIGHT"
  shows "rb_iter_push f fs = Some (f # fs)"
proof -
  have "rb_height t > 0" using assms(2) by (cases t) auto
  with zip_height [of fs t] assms show ?thesis by (simp add: rb_iter_push_def)
qed

lemma rb_iter_descend_ok:
  assumes "rb_height T \<le> RB_ITER_MAX_HEIGHT"
  shows "t \<noteq> RNil \<Longrightarrow> zip_up fs t = T \<Longrightarrow> \<exists>fs' q. rb_iter_descend d fs t = Some (fs', q) \<and> q \<noteq> RNil \<and>
    zip_up fs' q = T \<and> val q # ahead (\<not> d) fs' q = (if d then rev (pre fs @ inorder t) else inorder t @ post fs)"
proof (induction t arbitrary: fs)
  case (RNode c l v r)
  have p: "rb_iter_push f fs = Some (f # fs)" for f
    by (rule rb_iter_push_ok [OF RNode.prems(2,1) assms])
  show ?case
  proof (cases "(if d then r else l) = RNil")
    case True
    with RNode.prems show ?thesis by (auto simp: ahead_def)
  next
    case False
    show ?thesis
    proof (cases d)
      case True
      with False RNode.prems RNode.IH(2) [of "Fr True c v l # fs"] p show ?thesis by auto
    next
      case d: False
      with False RNode.prems RNode.IH(1) [of "Fr False c v r # fs"] p show ?thesis by auto
    qed
  qed
qed simp

lemma rb_iter_climb_ok:
  assumes "zip_up fs t = T" and "rb_iter_climb dir fs t = (fs', q)" and "t \<noteq> RNil"
  shows "(q = RNil \<or> zip_up fs' q = T) \<and>
    (if q = RNil then [] else val q # ahead dir fs' q) = (if dir then post fs else rev (pre fs))"
  using assms
proof (induction dir fs t rule: rb_iter_climb.induct)
  case (2 dir f fs t)
  obtain d c v s where f: "f = Fr d c v s" by (cases f)
  show ?case
  proof (cases "d = dir")
    case True
    with 2 f show ?thesis by (auto split: if_splits)
  next
    case False
    with 2 f show ?thesis by (auto simp: ahead_def split: if_splits)
  qed
qed auto

lemma rb_iter_move_ok:
  assumes T: "rb_height T \<le> RB_ITER_MAX_HEIGHT" and "iter_ok T it" and ne: "it_node it \<noteq> RNil"
  shows "\<exists>it'. rb_iter_move it dir = Some it' \<and> iter_ok T it' \<and>
    remaining dir it' = ahead dir (it_path it) (it_node it)"
proof -
  obtain c l v r where n: "it_node it = RNode c l v r" using ne by (cases "it_node it") auto
  have z: "zip_up (it_path it) (it_node it) = T" using assms by (auto simp: iter_ok_def)
  note p = rb_iter_push_ok [OF z ne T]
  show ?thesis
  proof (cases "link dir (it_node it) = RNil")
    case True
    obtain fs q where c: "rb_iter_climb dir (it_path it) (it_node it) = (fs, q)" by fastforce
    with rb_iter_climb_ok [OF z c ne] True n show ?thesis
      by (auto simp: rb_iter_move_def iter_ok_def remaining_def ahead_def split: if_splits)
  next
    case False
    let ?f = "if dir then Fr True c v l else Fr False c v r" and ?t = "if dir then r else l"
    have "?t \<noteq> RNil" "zip_up (?f # it_path it) ?t = T" using False n z by (auto split: if_splits)
    from rb_iter_descend_ok [OF T this, of "\<not> dir"] False n p show ?thesis
      by (auto simp: rb_iter_move_def iter_ok_def remaining_def ahead_def split: if_splits)
  qed
qed

lemma rb_iter_run_ok:
  assumes "rb_height T \<le> RB_ITER_MAX_HEIGHT"
  shows "iter_ok T it \<Longrightarrow> length (remaining dir it) \<le> n \<Longrightarrow> rb_iter_run n dir it = Some (remaining dir it)"
proof (induction n arbitrary: it)
  case (Suc n)
  show ?case
  proof (cases "it_node it = RNil")
    case False
    from rb_iter_move_ok [OF assms Suc.prems(1) this, of dir] obtain it' where
      m: "rb_iter_move it dir = Some it'" "iter_ok T it'" "remaining dir it' = ahead dir (it_path it) (it_node it)" by blast
    have "length (remaining dir it') \<le> n" using Suc.prems(2) m(3) False by (simp add: remaining_def)
    with Suc.IH [OF m(2)] m(1,3) False show ?thesis
      by (auto simp: remaining_def split: rb.splits)
  qed (simp add: remaining_def)
qed (auto simp: remaining_def split: if_splits)

lemma rb_iter_start_ok:
  assumes "rb_height (root T) \<le> RB_ITER_MAX_HEIGHT"
  shows "\<exists>it. rb_iter_start T d = Some it \<and> iter_ok (root T) it \<and>
    remaining (\<not> d) it = (if d then rev (inorder (root T)) else inorder (root T))"
proof (cases "root T = RNil")
  case True
  then show ?thesis by (simp add: rb_iter_start_def iter_ok_def remaining_def)
next
  case False
  from rb_iter_descend_ok [OF assms False, of "[]" d] False show ?thesis
    by (auto simp: rb_iter_start_def iter_ok_def remaining_def)
qed

end
