(* ===== verification/Utils_RBTree_Spec.thy ===== *)
theory Utils_RBTree_Spec
  imports Utils_RBTree_Props
begin

text \<open>
  The contract of the red-black tree as a finite ordered collection, the proof that
  \<open>utils_rbtree.c\<close> meets it, and the properties of the tree.
\<close>

section \<open>The contract\<close>

locale probe_tree =
  fixes seq :: "'t \<Rightarrow> 'a list" and ok :: "'t \<Rightarrow> bool"
    and find :: "'a cmp \<Rightarrow> 't \<Rightarrow> 'a \<Rightarrow> 'a option"
    and insert :: "'a cmp \<Rightarrow> 't \<Rightarrow> 'a \<Rightarrow> 't option"
    and remove :: "'a cmp \<Rightarrow> 't \<Rightarrow> 'a \<Rightarrow> 't option"
  assumes find_law: "mono_probe cmp n (seq t) \<Longrightarrow>
      find cmp t n = Some x \<longleftrightarrow> x \<in> set (seq t) \<and> cmp x n = 0"
    and insert_law: "ok t \<Longrightarrow> mono_probe cmp n (seq t) \<Longrightarrow> cmp n n = 0 \<Longrightarrow>
      \<exists>t'. insert cmp t n = Some t' \<and> ok t' \<and> seq t' = ins_seq cmp n (seq t)"
    and remove_law: "ok t \<Longrightarrow> mono_probe cmp n (seq t) \<Longrightarrow>
      \<exists>t'. remove cmp t n = Some t' \<and> ok t' \<and> seq t' = del_seq cmp n (seq t)"
begin

lemma find_None: "mono_probe cmp n (seq t) \<Longrightarrow> find cmp t n = None \<longleftrightarrow> \<not> has_key cmp n (seq t)"
  using find_law [of cmp n t] by (cases "find cmp t n") (auto simp: has_key_def)

lemma insert_new:
  assumes "ok t" and "mono_probe cmp n (seq t)" and "cmp n n = 0" and "\<not> has_key cmp n (seq t)"
  obtains t' where "insert cmp t n = Some t'" "ok t'" "set (seq t') = {n} \<union> set (seq t)"
    "seq t' = filter (\<lambda>x. cmp x n < 0) (seq t) @ n # filter (\<lambda>x. cmp x n > 0) (seq t)"
proof -
  from insert_law [OF assms(1-3)] obtain t' where t': "insert cmp t n = Some t'" "ok t'"
    "seq t' = filter (\<lambda>x. cmp x n < 0) (seq t) @ n # filter (\<lambda>x. cmp x n > 0) (seq t)"
    using assms(4) by (auto simp: ins_seq_def)
  have "set (seq t') = {n} \<union> set (seq t)"
    using assms(4) unfolding t'(3) by (auto simp: has_key_def)
  with t' that show thesis by blast
qed

lemma insert_present:
  assumes "ok t" and "mono_probe cmp n (seq t)" and "cmp n n = 0" and "has_key cmp n (seq t)"
  shows "\<exists>t'. insert cmp t n = Some t' \<and> ok t' \<and> seq t' = seq t"
  using insert_law [OF assms(1-3)] assms(4) by (auto simp: ins_seq_def)

lemma remove_set:
  assumes "ok t" and "mono_probe cmp n (seq t)"
  obtains t' where "remove cmp t n = Some t'" "ok t'" "set (seq t') = {x \<in> set (seq t). cmp x n \<noteq> 0}"
    "seq t' = filter (\<lambda>x. cmp x n \<noteq> 0) (seq t)"
  using remove_law [OF assms] that by (auto simp: del_seq_def)

end

text \<open>The tree operations as the client sees them, without the returned status and the size.\<close>

definition rbt_find :: "'a cmp \<Rightarrow> 'a rb_tree \<Rightarrow> 'a \<Rightarrow> 'a option" where
  "rbt_find cmp t n = rb_tree_find cmp (Some t) n"

definition rbt_insert :: "'a cmp \<Rightarrow> 'a rb_tree \<Rightarrow> 'a \<Rightarrow> 'a rb_tree option" where
  "rbt_insert cmp t n = map_option snd (rb_tree_insert_node cmp t (rb_node_init n))"

definition rbt_remove :: "'a cmp \<Rightarrow> 'a rb_tree \<Rightarrow> 'a \<Rightarrow> 'a rb_tree option" where
  "rbt_remove cmp t n = do { (ret, t') \<leftarrow> rb_tree_remove cmp (Some t) n; t' }"

definition rbt_seq :: "'a rb_tree \<Rightarrow> 'a list" where
  "rbt_seq t = inorder (root t)"

definition rbt_ok :: "'a rb_tree \<Rightarrow> bool" where
  "rbt_ok t = rb_inv (root t)"

interpretation rbt: probe_tree rbt_seq rbt_ok rbt_find rbt_insert rbt_remove
proof
  show "rbt_find cmp t n = Some x \<longleftrightarrow> x \<in> set (rbt_seq t) \<and> cmp x n = 0"
    if "mono_probe cmp n (rbt_seq t)" for cmp :: "'a cmp" and n t x
    using that by (simp add: rbt_find_def rb_tree_find_def rb_find_loop_Some rbt_seq_def)
  show "\<exists>t'. rbt_insert cmp t n = Some t' \<and> rbt_ok t' \<and> rbt_seq t' = ins_seq cmp n (rbt_seq t)"
    if "rbt_ok t" "mono_probe cmp n (rbt_seq t)" "cmp n n = 0" for t cmp and n :: 'a
    using rb_tree_insert_node_correct [of t cmp n] that by (auto simp: rbt_insert_def rbt_ok_def rbt_seq_def)
  show "\<exists>t'. rbt_remove cmp t n = Some t' \<and> rbt_ok t' \<and> rbt_seq t' = del_seq cmp n (rbt_seq t)"
    if "rbt_ok t" "mono_probe cmp n (rbt_seq t)" for t cmp and n :: 'a
    using rb_tree_remove_correct [of t cmp n] that by (auto simp: rbt_remove_def rbt_ok_def rbt_seq_def)
qed

lemma rbt_init [simp]: "rbt_ok rb_tree_init" "rbt_seq rb_tree_init = []"
  by (auto simp: rbt_ok_def rbt_seq_def rb_tree_init_def rb_inv_def)

section \<open>Trees ordered by a key\<close>

definition key_cmp :: "('a \<Rightarrow> int) \<Rightarrow> 'a cmp" where
  "key_cmp key a b = key a - key b"

definition key_sorted :: "('a \<Rightarrow> 'k :: linorder) \<Rightarrow> 'a list \<Rightarrow> bool" where
  "key_sorted key xs \<longleftrightarrow> sorted_wrt (\<lambda>x y. key x < key y) xs"

lemma key_sorted_probe: "key_sorted key xs \<Longrightarrow> mono_probe (key_cmp key) n xs"
  unfolding key_sorted_def mono_probe_def key_cmp_def by (erule sorted_wrt_mono_rel [rotated]) simp

lemma key_sorted_ins: "key_sorted key xs \<Longrightarrow> key_sorted key (ins_seq (key_cmp key) n xs)"
  by (auto simp: key_sorted_def ins_seq_def sorted_wrt_append sorted_wrt_filter key_cmp_def)

lemma key_sorted_del: "key_sorted key xs \<Longrightarrow> key_sorted key (del_seq (key_cmp key) n xs)"
  by (simp add: key_sorted_def del_seq_def sorted_wrt_filter)

datatype 'a rb_op = Ins 'a | Del 'a

fun rb_step :: "'a cmp \<Rightarrow> 'a rb_op \<Rightarrow> 'a rb_tree \<Rightarrow> 'a rb_tree option" where
  "rb_step cmp (Ins n) t = rbt_insert cmp t n"
| "rb_step cmp (Del n) t = rbt_remove cmp t n"

fun rb_run :: "'a cmp \<Rightarrow> 'a rb_op list \<Rightarrow> 'a rb_tree \<Rightarrow> 'a rb_tree option" where
  "rb_run cmp [] t = Some t"
| "rb_run cmp (e # es) t = do { t \<leftarrow> rb_step cmp e t; rb_run cmp es t }"

text \<open>The specification: a set in which a key occurs once, and the first value of a key stays.\<close>

fun spec_step :: "('a \<Rightarrow> int) \<Rightarrow> 'a rb_op \<Rightarrow> 'a set \<Rightarrow> 'a set" where
  "spec_step key (Ins n) S = (if key n \<in> key ` S then S else insert n S)"
| "spec_step key (Del n) S = {x \<in> S. key x \<noteq> key n}"

fun spec_run :: "('a \<Rightarrow> int) \<Rightarrow> 'a rb_op list \<Rightarrow> 'a set \<Rightarrow> 'a set" where
  "spec_run key [] S = S"
| "spec_run key (e # es) S = spec_run key es (spec_step key e S)"

lemma rb_step_refines:
  assumes "rbt_ok t" "key_sorted key (rbt_seq t)"
  shows "\<exists>t'. rb_step (key_cmp key) e t = Some t' \<and> rbt_ok t' \<and> key_sorted key (rbt_seq t') \<and>
    set (rbt_seq t') = spec_step key e (set (rbt_seq t))"
proof (cases e)
  case (Ins n)
  obtain t' where t': "rbt_insert (key_cmp key) t n = Some t'" "rbt_ok t'"
    "rbt_seq t' = ins_seq (key_cmp key) n (rbt_seq t)"
    using rbt.insert_law [OF assms(1) key_sorted_probe [OF assms(2)]] by (auto simp: key_cmp_def)
  have "set (ins_seq (key_cmp key) n (rbt_seq t)) = spec_step key (Ins n) (set (rbt_seq t))"
    by (auto simp: ins_seq_def has_key_def key_cmp_def image_iff)
  with t' Ins assms key_sorted_ins show ?thesis by auto
next
  case (Del n)
  with rbt.remove_law [OF assms(1) key_sorted_probe [OF assms(2)], of n] key_sorted_del [OF assms(2), of n]
  show ?thesis by (auto simp: del_seq_def key_cmp_def)
qed

lemma rb_run_refines:
  assumes "rbt_ok t" "key_sorted key (rbt_seq t)"
  shows "\<exists>t'. rb_run (key_cmp key) es t = Some t' \<and> rbt_ok t' \<and> key_sorted key (rbt_seq t') \<and>
    set (rbt_seq t') = spec_run key es (set (rbt_seq t))"
  using assms
proof (induction es arbitrary: t)
  case (Cons e es)
  from rb_step_refines [OF Cons.prems, of e] obtain t1 where "rb_step (key_cmp key) e t = Some t1" "rbt_ok t1"
    "key_sorted key (rbt_seq t1)" "set (rbt_seq t1) = spec_step key e (set (rbt_seq t))" by blast
  with Cons.IH [of t1] show ?case by simp
qed simp

section \<open>Properties\<close>

text \<open>
  C1: for a comparison by a key, every sequence of insertions and removals on a fresh tree runs
  through, leaves a valid red-black tree ordered by the key whose contents are those of the
  abstract set after the same operations, and a lookup finds exactly the members of that set.
\<close>

theorem rb_tree_refines_set:
  "\<exists>t. rb_run (key_cmp key) es rb_tree_init = Some t \<and> rb_inv (root t) \<and>
     sorted_wrt (\<lambda>x y. key x < key y) (inorder (root t)) \<and> set (inorder (root t)) = spec_run key es {} \<and>
     (\<forall>n x. rb_tree_find (key_cmp key) (Some t) n = Some x \<longleftrightarrow> x \<in> spec_run key es {} \<and> key x = key n)"
proof -
  obtain t where t: "rb_run (key_cmp key) es rb_tree_init = Some t" "rbt_ok t" "key_sorted key (rbt_seq t)"
    "set (rbt_seq t) = spec_run key es {}"
    using rb_run_refines [of rb_tree_init key es] by (auto simp: key_sorted_def)
  have "rbt_find (key_cmp key) t n = Some x \<longleftrightarrow> x \<in> spec_run key es {} \<and> key x = key n" for n x
    using rbt.find_law [OF key_sorted_probe [OF t(3)], of n x] t(4) by (simp add: key_cmp_def)
  with t show ?thesis by (auto simp: rbt_find_def rbt_ok_def rbt_seq_def key_sorted_def)
qed

text \<open>
  C7: \<open>rb_tree_insert\<close> with any comparison whose signs along the tree go from negative over at most
  one zero to positive: the loop ends without following a stale pointer, the invariants hold
  again, and the value stands between the smaller and the larger ones. A value that compares
  equal to a stored one leaves the contents unchanged, yet the returned status is 1 and the size
  counter grows.
\<close>

theorem rb_tree_insert_correct:
  assumes "rb_inv (root T)" and "mono_probe cmp n (inorder (root T))" and "cmp n n = 0"
  shows "\<exists>T'. rb_tree_insert cmp True (Some T) n = Some (1, Some T') \<and> rb_inv (root T') \<and>
    inorder (root T') = (if \<exists>x\<in>set (inorder (root T)). cmp x n = 0 then inorder (root T)
      else filter (\<lambda>x. cmp x n < 0) (inorder (root T)) @ n # filter (\<lambda>x. cmp x n > 0) (inorder (root T))) \<and>
    rb_tree_size (Some T') = rb_tree_size (Some T) + 1"
  using rb_tree_insert_node_correct [OF assms]
  by (auto simp: rb_tree_insert_def ins_seq_def has_key_def rb_tree_size_def)

definition sample_tree :: "int rb_tree" where
  "sample_tree = \<lparr>root = RNode False (RNode True RNil 3 RNil) 5 (RNode True RNil 8 RNil), rb_size = 3\<rparr>"

lemma sample_tree_ok: "rb_inv (root sample_tree)" "inorder (root sample_tree) = [3, 5, 8]"
  "mono_probe (\<lambda>a b. a - b) n (inorder (root sample_tree))"
  by (auto simp: sample_tree_def rb_inv_def mono_probe_def intro: exI [of _ "Suc 0"])

theorem rb_tree_insert_correct_witness:
  "\<exists>T'. rb_tree_insert (\<lambda>a b. a - b) True (Some sample_tree) 4 = Some (1, Some T') \<and>
    inorder (root T') = [3, 4, 5, 8]"
  using rb_tree_insert_correct [of sample_tree "\<lambda>a b. a - b" 4] sample_tree_ok by auto

text \<open>
  C8: \<open>rb_tree_remove\<close> under the same condition on the comparison: the invariants hold again and
  exactly the values that compare equal to the argument are gone. The returned status is 1 and
  the size counter drops even when nothing was removed from a non-empty tree.
\<close>

theorem rb_tree_remove_removes:
  assumes "rb_inv (root T)" and "mono_probe cmp n (inorder (root T))"
  shows "\<exists>T'. rb_tree_remove cmp (Some T) n = Some (1, Some T') \<and> rb_inv (root T') \<and>
    inorder (root T') = filter (\<lambda>x. cmp x n \<noteq> 0) (inorder (root T)) \<and>
    rb_tree_size (Some T') = (if root T = RNil then rb_tree_size (Some T) else rb_tree_size (Some T) - 1)"
  using rb_tree_remove_correct [OF assms] by (auto simp: del_seq_def rb_tree_size_def)

theorem rb_tree_remove_removes_witness:
  "\<exists>T'. rb_tree_remove (\<lambda>a b. a - b) (Some sample_tree) 5 = Some (1, Some T') \<and> inorder (root T') = [3, 8]"
  using rb_tree_remove_removes [of sample_tree "\<lambda>a b. a - b" 5] sample_tree_ok by auto

text \<open>
  C15: the iterator visits a red-black tree of fewer than \<open>2 ^ 32\<close> nodes in order, ascending from
  \<open>rb_iter_first\<close> and descending from \<open>rb_iter_last\<close>, each node once, and its path array never
  overflows.
\<close>

theorem rb_iter_visits_in_order:
  assumes "rb_inv (root T)" and "length (inorder (root T)) < 2 ^ 32"
  shows "\<exists>it it'. rb_iter_first T = Some it \<and> rb_iter_last T = Some it' \<and>
    rb_iter_run (length (inorder (root T))) True it = Some (inorder (root T)) \<and>
    rb_iter_run (length (inorder (root T))) False it' = Some (rev (inorder (root T)))"
proof -
  have h: "rb_height (root T) \<le> RB_ITER_MAX_HEIGHT"
    using rb_inv_height [OF assms] by (simp add: RB_ITER_MAX_HEIGHT_def)
  from rb_iter_start_ok [OF h, of False] rb_iter_start_ok [OF h, of True] show ?thesis
    by (auto simp: rb_iter_first_def rb_iter_last_def rb_iter_run_ok [OF h])
qed

theorem rb_iter_visits_in_order_witness:
  "\<exists>it. rb_iter_first sample_tree = Some it \<and> rb_iter_run 3 True it = Some [3, 5, 8]"
proof -
  have n: "length (inorder (root sample_tree)) = 3" by (simp add: sample_tree_ok(2))
  show ?thesis using rb_iter_visits_in_order [OF sample_tree_ok(1), unfolded n] by (auto simp: sample_tree_ok(2))
qed

text \<open>
  C22: \<open>rb_tree_test\<close> accepts a tree if and only if no red node has a red child, all paths cross the
  same number of black nodes, and every node is ordered with respect to its children; the
  number it returns is then that black height plus one.
\<close>

theorem rb_tree_test_exact:
  "rb_tree_test cmp t = Suc h \<longleftrightarrow> nrr t \<and> bal t h \<and> local_order cmp t"
  by (rule rb_tree_test_bal)

text \<open>C23: \<open>rb_tree_dealloc\<close> hands every node to the callback exactly once, in the order of the tree.\<close>

theorem rb_tree_dealloc_all: "rb_tree_dealloc (Some T) = inorder (root T)"
  by (simp add: rb_tree_dealloc_def rb_dealloc_loop_inorder)

end
