(* ===== verification/Utils_List.thy ===== *)
theory Utils_List
  imports BL_Prelude
begin

text \<open>
  The intrusive lists of \<open>utils/src/utils_list.c\<close> and \<open>utils/include/utils_list.h\<close>: the
  singly linked \<open>struct utils_list\<close> with a head and a tail pointer, the headless
  \<open>utils_slist_t\<close> and the circular doubly linked \<open>utils_dlist_t\<close>.

  The list nodes live in a heap that maps an address to the node's link fields. Every operation
  is the sequence of reads and writes of the source; the lemmas show that it refines the
  corresponding operation on HOL lists of addresses.
\<close>

section \<open>struct utils\_list\<close>

type_synonym hdrs = "addr \<Rightarrow> ptr"

record utils_list =
  ul_first :: ptr
  ul_last :: ptr

definition utils_list_is_empty :: "utils_list \<Rightarrow> bool" where
  "utils_list_is_empty l = (ul_first l = NULL)"

definition utils_list_pick :: "utils_list \<Rightarrow> ptr" where
  "utils_list_pick l = ul_first l"

definition utils_list_pick_last :: "utils_list \<Rightarrow> ptr" where
  "utils_list_pick_last l = ul_last l"

definition utils_list_next :: "hdrs \<Rightarrow> ptr \<Rightarrow> ptr option" where
  "utils_list_next h hdr = rd h hdr"

definition utils_list_init :: "utils_list \<Rightarrow> utils_list" where
  "utils_list_init l = l\<lparr>ul_first := NULL, ul_last := NULL\<rparr>"

definition utils_list_push_back :: "hdrs \<Rightarrow> utils_list \<Rightarrow> ptr \<Rightarrow> (hdrs \<times> utils_list) option" where
  "utils_list_push_back h l list_hdr = do {
     (h, l) \<leftarrow> (if utils_list_is_empty l then Some (h, l\<lparr>ul_first := list_hdr\<rparr>)
               else do { h' \<leftarrow> wr h (ul_last l) list_hdr; Some (h', l) });
     let l = l\<lparr>ul_last := list_hdr\<rparr>;
     h \<leftarrow> wr h list_hdr NULL;
     Some (h, l)
   }"

definition utils_list_push_front :: "hdrs \<Rightarrow> utils_list \<Rightarrow> ptr \<Rightarrow> (hdrs \<times> utils_list) option" where
  "utils_list_push_front h l list_hdr = do {
     let l = (if utils_list_is_empty l then l\<lparr>ul_last := list_hdr\<rparr> else l);
     h \<leftarrow> wr h list_hdr (ul_first l);
     Some (h, l\<lparr>ul_first := list_hdr\<rparr>)
   }"

definition utils_list_pop_front :: "hdrs \<Rightarrow> utils_list \<Rightarrow> (ptr \<times> utils_list) option" where
  "utils_list_pop_front h l = (let element = ul_first l in
     if element \<noteq> NULL then do {
       n \<leftarrow> rd h (ul_first l);
       Some (element, l\<lparr>ul_first := n\<rparr>)
     } else Some (element, l))"

text \<open>
  The pool initialiser walks an array of \<open>elmt_cnt\<close> elements of \<open>elmt_size\<close> bytes. An element
  is its link field and the rest of its bytes (\<open>'e\<close>); \<open>default_value\<close> is such an element or
  \<open>NULL\<close>, and \<open>memcpy\<close> overwrites both parts.
\<close>

fun utils_list_pool_init_loop ::
  "nat \<Rightarrow> hdrs \<Rightarrow> (addr \<Rightarrow> 'e) \<Rightarrow> utils_list \<Rightarrow> addr \<Rightarrow> nat \<Rightarrow> (ptr \<times> 'e) option
    \<Rightarrow> (hdrs \<times> (addr \<Rightarrow> 'e) \<times> utils_list) option" where
  "utils_list_pool_init_loop 0 h m l pool elmt_size default_value = Some (h, m, l)"
| "utils_list_pool_init_loop (Suc n) h m l pool elmt_size default_value = do {
     let (h, m) = (case default_value of None \<Rightarrow> (h, m)
                   | Some (nx, e) \<Rightarrow> (h(pool := nx), m(pool := e)));
     (h, l) \<leftarrow> utils_list_push_back h l (Some pool);
     utils_list_pool_init_loop n h m l (pool + elmt_size) elmt_size default_value
   }"

definition utils_list_pool_init ::
  "hdrs \<Rightarrow> (addr \<Rightarrow> 'e) \<Rightarrow> utils_list \<Rightarrow> addr \<Rightarrow> nat \<Rightarrow> nat \<Rightarrow> (ptr \<times> 'e) option
    \<Rightarrow> (hdrs \<times> (addr \<Rightarrow> 'e) \<times> utils_list) option" where
  "utils_list_pool_init h m l pool elmt_size elmt_cnt default_value =
     utils_list_pool_init_loop elmt_cnt h m (utils_list_init l) pool elmt_size default_value"

partial_function (option) utils_list_extract_scan :: "hdrs \<Rightarrow> ptr \<Rightarrow> ptr \<Rightarrow> ptr option" where
  "utils_list_extract_scan h scan_list list_hdr = do {
     n \<leftarrow> rd h scan_list;
     if n \<noteq> NULL \<and> n \<noteq> list_hdr then utils_list_extract_scan h n list_hdr else Some scan_list
   }"

declare utils_list_extract_scan.simps [code]

definition utils_list_extract :: "hdrs \<Rightarrow> utils_list \<Rightarrow> ptr \<Rightarrow> (hdrs \<times> utils_list) option" where
  "utils_list_extract h l list_hdr = (let scan_list = ul_first l in
     if scan_list = NULL then Some (h, l)
     else if scan_list = list_hdr then do {
       n \<leftarrow> rd h scan_list;
       Some (h, l\<lparr>ul_first := n\<rparr>)
     } else do {
       scan_list \<leftarrow> utils_list_extract_scan h scan_list list_hdr;
       n \<leftarrow> rd h scan_list;
       if n \<noteq> NULL then do {
         let l = (if ul_last l = list_hdr then l\<lparr>ul_last := scan_list\<rparr> else l);
         nn \<leftarrow> rd h list_hdr;
         h \<leftarrow> wr h scan_list nn;
         Some (h, l)
       } else Some (h, l)
     })"

partial_function (option) utils_list_find_scan :: "hdrs \<Rightarrow> ptr \<Rightarrow> ptr \<Rightarrow> ptr option" where
  "utils_list_find_scan h tmp_list_hdr list_hdr =
     (if tmp_list_hdr \<noteq> list_hdr \<and> tmp_list_hdr \<noteq> NULL then do {
        n \<leftarrow> rd h tmp_list_hdr;
        utils_list_find_scan h n list_hdr
      } else Some tmp_list_hdr)"

declare utils_list_find_scan.simps [code]

definition utils_list_find :: "hdrs \<Rightarrow> utils_list \<Rightarrow> ptr \<Rightarrow> bool option" where
  "utils_list_find h l list_hdr = do {
     tmp_list_hdr \<leftarrow> utils_list_find_scan h (ul_first l) list_hdr;
     Some (tmp_list_hdr = list_hdr)
   }"

partial_function (option) utils_list_cnt_loop :: "hdrs \<Rightarrow> ptr \<Rightarrow> u32 \<Rightarrow> u32 option" where
  "utils_list_cnt_loop h elt cnt =
     (if elt \<noteq> NULL then do {
        n \<leftarrow> utils_list_next h elt;
        utils_list_cnt_loop h n (cnt + 1)
      } else Some cnt)"

declare utils_list_cnt_loop.simps [code]

definition utils_list_cnt :: "hdrs \<Rightarrow> utils_list \<Rightarrow> u32 option" where
  "utils_list_cnt h l = utils_list_cnt_loop h (utils_list_pick l) 0"

partial_function (option) utils_list_insert_scan ::
  "hdrs \<Rightarrow> (ptr \<Rightarrow> ptr \<Rightarrow> bool) \<Rightarrow> ptr \<Rightarrow> ptr \<Rightarrow> ptr \<Rightarrow> (ptr \<times> ptr) option" where
  "utils_list_insert_scan h cmp element prev scan =
     (if scan \<noteq> NULL then
        if cmp element scan then Some (prev, scan)
        else do {
          n \<leftarrow> rd h scan;
          utils_list_insert_scan h cmp element scan n
        }
      else Some (prev, scan))"

declare utils_list_insert_scan.simps [code]

definition utils_list_insert ::
  "hdrs \<Rightarrow> utils_list \<Rightarrow> ptr \<Rightarrow> (ptr \<Rightarrow> ptr \<Rightarrow> bool) \<Rightarrow> (hdrs \<times> utils_list) option" where
  "utils_list_insert h l element cmp = do {
     (prev, scan) \<leftarrow> utils_list_insert_scan h cmp element NULL (ul_first l);
     let l = (if scan = NULL then l\<lparr>ul_last := element\<rparr> else l);
     h \<leftarrow> wr h element scan;
     if prev \<noteq> NULL then do { h \<leftarrow> wr h prev element; Some (h, l) }
     else Some (h, l\<lparr>ul_first := element\<rparr>)
   }"

definition utils_list_insert_after ::
  "hdrs \<Rightarrow> utils_list \<Rightarrow> ptr \<Rightarrow> ptr \<Rightarrow> (hdrs \<times> utils_list) option" where
  "utils_list_insert_after h l prev_element element =
     (if prev_element = NULL then utils_list_push_front h l element
      else do {
        scan \<leftarrow> utils_list_find_scan h (ul_first l) prev_element;
        if scan \<noteq> NULL then do {
          n \<leftarrow> rd h prev_element;
          h \<leftarrow> wr h element n;
          h \<leftarrow> wr h prev_element element;
          en \<leftarrow> rd h element;
          Some (h, if en = NULL then l\<lparr>ul_last := element\<rparr> else l)
        } else Some (h, l)
      })"

partial_function (option) utils_list_before_scan :: "hdrs \<Rightarrow> ptr \<Rightarrow> ptr \<Rightarrow> ptr option" where
  "utils_list_before_scan h scan next_element =
     (if scan \<noteq> NULL then do {
        n \<leftarrow> rd h scan;
        if n = next_element then Some scan else utils_list_before_scan h n next_element
      } else Some scan)"

declare utils_list_before_scan.simps [code]

definition utils_list_insert_before ::
  "hdrs \<Rightarrow> utils_list \<Rightarrow> ptr \<Rightarrow> ptr \<Rightarrow> (hdrs \<times> utils_list) option" where
  "utils_list_insert_before h l next_element element =
     (if next_element = NULL then utils_list_push_back h l element
      else if next_element = ul_first l then utils_list_push_front h l element
      else do {
        scan \<leftarrow> utils_list_before_scan h (ul_first l) next_element;
        if scan \<noteq> NULL then do {
          h \<leftarrow> wr h element next_element;
          h \<leftarrow> wr h scan element;
          Some (h, l)
        } else Some (h, l)
      })"

definition utils_list_concat ::
  "hdrs \<Rightarrow> utils_list \<Rightarrow> utils_list \<Rightarrow> (hdrs \<times> utils_list \<times> utils_list) option" where
  "utils_list_concat h list1 list2 =
     (if ul_first list2 \<noteq> NULL then do {
        (h, list1) \<leftarrow> (if ul_first list1 = NULL then Some (h, list2)
           else do {
             h \<leftarrow> wr h (ul_last list1) (ul_first list2);
             Some (h, list1\<lparr>ul_last := ul_last list2\<rparr>)
           });
        Some (h, list1, list2\<lparr>ul_first := NULL\<rparr>)
      } else Some (h, list1, list2))"

definition utils_list_remove ::
  "hdrs \<Rightarrow> utils_list \<Rightarrow> ptr \<Rightarrow> ptr \<Rightarrow> (hdrs \<times> utils_list) option" where
  "utils_list_remove h l prev_element element = do {
     n \<leftarrow> rd h element;
     (h, l) \<leftarrow> (if prev_element = NULL then Some (h, l\<lparr>ul_first := n\<rparr>)
        else do {
          h \<leftarrow> wr h prev_element n;
          Some (h, if ul_last l = element then l\<lparr>ul_last := prev_element\<rparr> else l)
        });
     h \<leftarrow> wr h element NULL;
     Some (h, l)
   }"


section \<open>Refinement of lists\<close>

definition ul_list :: "hdrs \<Rightarrow> utils_list \<Rightarrow> addr list \<Rightarrow> bool" where
  "ul_list h l xs \<longleftrightarrow> chain h (ul_first l) xs NULL \<and> (xs \<noteq> [] \<longrightarrow> ul_last l = Some (last xs))"

lemma ul_list_init: "ul_list h (utils_list_init l) []"
  by (simp add: ul_list_def utils_list_init_def)

lemma ul_list_distinct: "ul_list h l xs \<Longrightarrow> distinct xs"
  by (auto simp: ul_list_def intro: chain_distinct)

lemma ul_list_chain: "ul_list h l xs \<Longrightarrow> chain h (ul_first l) xs NULL"
  by (simp add: ul_list_def)

lemma ul_list_empty_iff: "ul_list h l xs \<Longrightarrow> ul_first l = NULL \<longleftrightarrow> xs = []"
  by (cases xs) (auto simp: ul_list_def)

lemma ul_list_first: "ul_list h l (x # xs) \<Longrightarrow> ul_first l = Some x"
  by (simp add: ul_list_def)

lemma ul_list_upd: "ul_list h l xs \<Longrightarrow> a \<notin> set xs \<Longrightarrow> ul_list (h(a := v)) l xs"
  by (simp add: ul_list_def)

lemma ul_list_push_back:
  assumes "ul_list h l xs" and "x \<notin> set xs"
  shows "\<exists>h' l'. utils_list_push_back h l (Some x) = Some (h', l') \<and> ul_list h' l' (xs @ [x])
    \<and> (\<forall>a. a \<noteq> x \<longrightarrow> a \<notin> set xs \<longrightarrow> h' a = h a)"
proof (cases "xs = []")
  case True
  with assms show ?thesis
    by (auto simp: ul_list_def utils_list_push_back_def utils_list_is_empty_def)
next
  case False
  then obtain ys y where xs: "xs = ys @ [y]" by (metis rev_exhaust)
  from assms xs have ch: "chain h (ul_first l) (ys @ [y]) NULL" and l: "ul_last l = Some y"
    by (auto simp: ul_list_def)
  from assms(1) xs have ne: "ul_first l \<noteq> NULL" using ul_list_empty_iff by blast
  from ch have "distinct (ys @ [y])" by (rule chain_distinct)
  with ch have "chain (h(y := Some x)) (ul_first l) (ys @ [y]) (Some x)"
    by (intro chain_relink) auto
  with assms xs have "chain (h(y := Some x, x := NULL)) (ul_first l) (xs @ [x]) NULL"
    by (auto simp: chain_append)
  with l ne xs show ?thesis
    by (auto simp: ul_list_def utils_list_push_back_def utils_list_is_empty_def)
qed

lemma ul_list_push_front:
  assumes "ul_list h l xs" and "x \<notin> set xs"
  shows "\<exists>h' l'. utils_list_push_front h l (Some x) = Some (h', l') \<and> ul_list h' l' (x # xs)
    \<and> (\<forall>a. a \<noteq> x \<longrightarrow> h' a = h a)"
  using assms
  by (cases xs) (auto simp: ul_list_def utils_list_push_front_def utils_list_is_empty_def)

lemma ul_list_pop_front_Cons:
  "ul_list h l (x # xs) \<Longrightarrow> \<exists>l'. utils_list_pop_front h l = Some (Some x, l') \<and> ul_list h l' xs"
  by (cases xs) (auto simp: ul_list_def utils_list_pop_front_def)

lemma ul_list_pop_front_Nil: "ul_list h l [] \<Longrightarrow> utils_list_pop_front h l = Some (NULL, l)"
  by (simp add: ul_list_def utils_list_pop_front_def)

subsection \<open>Scanning loops\<close>

lemma find_scan_absent:
  "chain h p xs NULL \<Longrightarrow> a \<notin> set xs \<Longrightarrow> utils_list_find_scan h p (Some a) = Some NULL"
proof (induction xs arbitrary: p)
  case Nil
  then show ?case by (simp add: utils_list_find_scan.simps)
next
  case (Cons x xs)
  then show ?case by (subst utils_list_find_scan.simps) auto
qed

lemma find_scan_present:
  "chain h p (as @ a # bs) q \<Longrightarrow> a \<notin> set as \<Longrightarrow> utils_list_find_scan h p (Some a) = Some (Some a)"
proof (induction as arbitrary: p)
  case Nil
  then show ?case by (simp add: utils_list_find_scan.simps)
next
  case (Cons x xs)
  then show ?case by (subst utils_list_find_scan.simps) auto
qed

lemma utils_list_find_correct:
  assumes "ul_list h l xs"
  shows "utils_list_find h l (Some a) = Some (a \<in> set xs)"
proof (cases "a \<in> set xs")
  case True
  then obtain as bs where "xs = as @ a # bs" "a \<notin> set as"
    by (metis split_first_occurrence)
  with assms have "utils_list_find_scan h (ul_first l) (Some a) = Some (Some a)"
    by (auto simp: ul_list_def intro: find_scan_present)
  with True show ?thesis by (simp add: utils_list_find_def)
next
  case False
  with assms have "utils_list_find_scan h (ul_first l) (Some a) = Some NULL"
    by (auto simp: ul_list_def intro: find_scan_absent)
  with False show ?thesis by (simp add: utils_list_find_def)
qed

lemma cnt_loop_chain:
  "chain h p xs NULL \<Longrightarrow> utils_list_cnt_loop h p c = Some (c + of_nat (length xs))"
proof (induction xs arbitrary: p c)
  case Nil
  then show ?case by (simp add: utils_list_cnt_loop.simps)
next
  case (Cons x xs)
  then show ?case
    by (subst utils_list_cnt_loop.simps) (simp add: utils_list_next_def algebra_simps)
qed

lemma utils_list_cnt_correct: "ul_list h l xs \<Longrightarrow> utils_list_cnt h l = Some (of_nat (length xs))"
  using cnt_loop_chain [of h "ul_first l" xs 0]
  by (simp add: ul_list_def utils_list_cnt_def utils_list_pick_def)

lemma extract_scan_present:
  "chain h (Some p) (p # as @ a # bs) q \<Longrightarrow> a \<notin> set as
    \<Longrightarrow> utils_list_extract_scan h (Some p) (Some a) = Some (Some (last (p # as)))"
proof (induction as arbitrary: p)
  case Nil
  then show ?case by (simp add: utils_list_extract_scan.simps)
next
  case (Cons x xs)
  then show ?case by (subst utils_list_extract_scan.simps) auto
qed

lemma extract_scan_absent:
  "chain h (Some p) (p # as) NULL \<Longrightarrow> a \<notin> set as
    \<Longrightarrow> utils_list_extract_scan h (Some p) (Some a) = Some (Some (last (p # as)))"
proof (induction as arbitrary: p)
  case Nil
  then show ?case by (simp add: utils_list_extract_scan.simps)
next
  case (Cons x xs)
  then show ?case by (subst utils_list_extract_scan.simps) auto
qed

lemma chain_bypass:
  assumes "chain h p (as @ [y, a] @ bs) NULL"
  shows "chain (h(y := h a)) p (as @ [y] @ bs) NULL"
proof -
  from assms have "distinct (as @ [y, a] @ bs)" by (rule chain_distinct)
  with assms show ?thesis by (auto simp: chain_append)
qed

lemma ul_list_extract:
  assumes "ul_list h l xs"
  shows "\<exists>h' l'. utils_list_extract h l (Some a) = Some (h', l') \<and> ul_list h' l' (remove1 a xs)
    \<and> (\<forall>b. b \<notin> set (remove1 a xs) \<longrightarrow> h' b = h b)"
proof (cases xs)
  case Nil
  with assms show ?thesis by (auto simp: ul_list_def utils_list_extract_def)
next
  case (Cons x ys)
  note ul = assms [unfolded Cons]
  then have ch: "chain h (Some x) (x # ys) NULL" and fst: "ul_first l = Some x"
    by (auto simp: ul_list_def)
  consider (hd) "a = x" | (mid) as bs where "a \<noteq> x" "ys = as @ a # bs" "a \<notin> set as"
    | (absent) "a \<noteq> x" "a \<notin> set ys"
    by (metis split_first_occurrence)
  then show ?thesis
  proof cases
    case hd
    with ul fst Cons show ?thesis
      by (cases ys) (auto simp: ul_list_def utils_list_extract_def)
  next
    case mid
    define y where "y = last (x # as)"
    obtain zs where zs: "x # as = zs @ [y]"
      unfolding y_def by (metis append_butlast_last_id list.distinct(1))
    from ch mid have scan: "utils_list_extract_scan h (Some x) (Some a) = Some (Some y)"
      unfolding y_def by (intro extract_scan_present) auto
    from ch mid zs have ch2: "chain h (Some x) (zs @ [y, a] @ bs) NULL"
      by (metis append.assoc append_Cons append_Nil)
    then have bp: "chain (h(y := h a)) (Some x) (zs @ [y] @ bs) NULL"
      by (rule chain_bypass)
    from ch2 have hy: "h y = Some a" by (auto simp: chain_append)
    from ch2 have d: "distinct (zs @ [y, a] @ bs)" by (rule chain_distinct)
    from zs mid have rem: "remove1 a xs = zs @ [y] @ bs" "xs = zs @ [y, a] @ bs"
      using Cons by (auto simp: remove1_append)
    with ul fst mid scan bp hy d Cons zs show ?thesis
      by (cases bs rule: rev_cases)
        (auto simp: ul_list_def utils_list_extract_def Let_def)
  next
    case absent
    then have "remove1 a xs = xs" using Cons by (auto simp: remove1_idem)
    moreover from ch absent
    have "utils_list_extract_scan h (Some x) (Some a) = Some (Some (last (x # ys)))"
      by (intro extract_scan_absent) auto
    moreover have "h (last (x # ys)) = NULL"
      using ch by (metis append_butlast_last_id chain_snoc_NULL list.distinct(1))
    ultimately show ?thesis
      using ul fst absent Cons by (auto simp: utils_list_extract_def Let_def)
  qed
qed

subsection \<open>Insertion\<close>

lemma chain_insert_at:
  assumes "chain h p (as @ bs) NULL" and "e \<notin> set (as @ bs)" and "as \<noteq> []"
  shows "chain (h(e := (if bs = [] then NULL else Some (hd bs)), last as := Some e))
           p (as @ e # bs) NULL"
proof -
  obtain zs y where as: "as = zs @ [y]" using assms(3) by (metis rev_exhaust)
  from assms(1) have d: "distinct (as @ bs)" by (rule chain_distinct)
  from assms(1) as have z: "chain h p zs (Some y)" and b: "chain h (h y) bs NULL"
    by (auto simp: chain_append)
  from b have "h y = (if bs = [] then NULL else Some (hd bs))" by (cases bs) auto
  with z b d assms(2) as show ?thesis by (cases bs) (auto simp: chain_append)
qed

lemma insert_scan_chain:
  assumes "chain h p xs NULL"
  shows "utils_list_insert_scan h cmp e prev p =
    Some (let as = takeWhile (\<lambda>x. \<not> cmp e (Some x)) xs; bs = dropWhile (\<lambda>x. \<not> cmp e (Some x)) xs
          in (if as = [] then prev else Some (last as), if bs = [] then NULL else Some (hd bs)))"
  using assms
proof (induction xs arbitrary: p prev)
  case Nil
  then show ?case by (simp add: utils_list_insert_scan.simps)
next
  case (Cons x xs)
  then show ?case
    by (subst utils_list_insert_scan.simps) (auto simp: Let_def)
qed

lemma ul_list_insert:
  assumes "ul_list h l xs" and "e \<notin> set xs"
  shows "\<exists>h' l'. utils_list_insert h l (Some e) cmp = Some (h', l') \<and>
    ul_list h' l' (takeWhile (\<lambda>x. \<not> cmp (Some e) (Some x)) xs @ e #
                   dropWhile (\<lambda>x. \<not> cmp (Some e) (Some x)) xs)"
proof -
  define as bs where "as = takeWhile (\<lambda>x. \<not> cmp (Some e) (Some x)) xs"
    and "bs = dropWhile (\<lambda>x. \<not> cmp (Some e) (Some x)) xs"
  have xs: "xs = as @ bs" unfolding as_def bs_def by simp
  from assms(1) have ch: "chain h (ul_first l) (as @ bs) NULL" and d: "distinct (as @ bs)"
    unfolding xs [symmetric] by (auto simp: ul_list_def intro: chain_distinct)
  have scan: "utils_list_insert_scan h cmp (Some e) NULL (ul_first l) =
    Some (if as = [] then NULL else Some (last as), if bs = [] then NULL else Some (hd bs))"
    using insert_scan_chain [of h "ul_first l" xs cmp "Some e" NULL] assms(1)
    unfolding as_def bs_def by (simp add: ul_list_def Let_def)
  show ?thesis
  proof (cases "as = []")
    case True
    with ch assms(2) xs scan assms(1) show ?thesis
      unfolding as_def [symmetric] bs_def [symmetric]
      by (cases bs) (auto simp: utils_list_insert_def ul_list_def)
  next
    case False
    then have "chain (h(e := (if bs = [] then NULL else Some (hd bs)), last as := Some e))
           (ul_first l) (as @ e # bs) NULL"
      using ch assms(2) xs by (intro chain_insert_at) auto
    with False scan assms(1) xs show ?thesis
      unfolding as_def [symmetric] bs_def [symmetric]
      by (auto simp: utils_list_insert_def ul_list_def)
  qed
qed

lemma ul_list_insert_after:
  assumes "ul_list h l (as @ p # bs)" and "e \<notin> set (as @ p # bs)"
  shows "\<exists>h' l'. utils_list_insert_after h l (Some p) (Some e) = Some (h', l') \<and>
    ul_list h' l' (as @ p # e # bs)"
proof -
  from assms(1) have ch: "chain h (ul_first l) ((as @ [p]) @ bs) NULL" and
    d: "distinct (as @ p # bs)"
    using ul_list_chain [OF assms(1)] ul_list_distinct [OF assms(1)] by simp_all
  with assms have scan: "utils_list_find_scan h (ul_first l) (Some p) = Some (Some p)"
    by (intro find_scan_present [of h _ as p bs NULL]) auto
  have "chain (h(e := (if bs = [] then NULL else Some (hd bs)), p := Some e))
      (ul_first l) ((as @ [p]) @ e # bs) NULL"
    using chain_insert_at [OF ch, of e] assms(2) by simp
  moreover from ch have "h p = (if bs = [] then NULL else Some (hd bs))"
    by (cases bs) (auto simp: chain_append)
  ultimately show ?thesis using assms scan
    by (auto simp: utils_list_insert_after_def ul_list_def)
qed

lemma before_scan_present:
  "chain h p (as @ y # a # bs) NULL \<Longrightarrow> a \<notin> set as \<Longrightarrow> y \<noteq> a
    \<Longrightarrow> utils_list_before_scan h p (Some a) = Some (Some y)"
proof (induction as arbitrary: p)
  case Nil
  then show ?case by (subst utils_list_before_scan.simps) auto
next
  case (Cons x xs)
  then have "h x \<noteq> Some a" by (cases xs) auto
  with Cons show ?case by (subst utils_list_before_scan.simps) auto
qed

lemma ul_list_insert_before:
  assumes "ul_list h l (as @ a # bs)" and "e \<notin> set (as @ a # bs)"
  shows "\<exists>h' l'. utils_list_insert_before h l (Some a) (Some e) = Some (h', l') \<and>
    ul_list h' l' (as @ e # a # bs)"
proof (cases "as = []")
  case True
  with assms ul_list_push_front [OF assms(1), of e] show ?thesis
    by (auto simp: utils_list_insert_before_def dest: ul_list_first)
next
  case False
  then obtain zs y where as: "as = zs @ [y]" by (metis rev_exhaust)
  from assms(1) have ch: "chain h (ul_first l) (as @ a # bs) NULL" and d: "distinct (as @ a # bs)"
    using ul_list_chain [OF assms(1)] ul_list_distinct [OF assms(1)] by simp_all
  with as have scan: "utils_list_before_scan h (ul_first l) (Some a) = Some (Some y)"
    by (intro before_scan_present [of h _ zs y a bs]) auto
  have "ul_first l \<noteq> Some a" using ch d as by (cases zs) auto
  moreover have "chain (h(e := Some a, y := Some e)) (ul_first l) (as @ e # a # bs) NULL"
    using chain_insert_at [OF ch assms(2) False] as by simp
  ultimately show ?thesis using assms(1) scan as
    by (auto simp: utils_list_insert_before_def ul_list_def)
qed

subsection \<open>Concatenation and removal\<close>

lemma ul_list_concat:
  assumes "ul_list h l1 xs" and "ul_list h l2 ys" and "set xs \<inter> set ys = {}"
  shows "\<exists>h' l1' l2'. utils_list_concat h l1 l2 = Some (h', l1', l2') \<and>
    ul_list h' l1' (xs @ ys) \<and> ul_list h' l2' []"
proof (cases "ys = []")
  case True
  with assms show ?thesis by (auto simp: utils_list_concat_def ul_list_def)
next
  case ys: False
  show ?thesis
  proof (cases "xs = []")
    case True
    with ys assms show ?thesis
      by (cases ys) (auto simp: utils_list_concat_def ul_list_def)
  next
    case False
    then obtain zs y where xs: "xs = zs @ [y]" by (metis rev_exhaust)
    from assms(1) have ch: "chain h (ul_first l1) xs NULL" and "distinct xs"
      by (auto simp: ul_list_def intro: chain_distinct)
    with xs have "chain (h(y := ul_first l2)) (ul_first l1) xs (ul_first l2)"
      by (auto intro: chain_relink)
    moreover have "chain (h(y := ul_first l2)) (ul_first l2) ys NULL"
      using assms(2,3) xs by (auto simp: ul_list_def)
    ultimately have "chain (h(y := ul_first l2)) (ul_first l1) (xs @ ys) NULL"
      by (auto simp: chain_append)
    moreover have "ul_first l1 \<noteq> NULL" "ul_first l2 \<noteq> NULL"
      using assms False ys by (auto simp: ul_list_empty_iff)
    ultimately show ?thesis using assms(1,2) xs ys
      by (auto simp: utils_list_concat_def ul_list_def)
  qed
qed

lemma ul_list_remove_first:
  assumes "ul_list h l (a # bs)"
  shows "\<exists>h' l'. utils_list_remove h l NULL (Some a) = Some (h', l') \<and> ul_list h' l' bs \<and> h' a = NULL"
proof -
  from assms have "a \<notin> set bs" using ul_list_distinct by force
  with assms show ?thesis by (cases bs) (auto simp: utils_list_remove_def ul_list_def)
qed

lemma ul_list_remove_next:
  assumes "ul_list h l (as @ p # a # bs)"
  shows "\<exists>h' l'. utils_list_remove h l (Some p) (Some a) = Some (h', l') \<and>
    ul_list h' l' (as @ p # bs) \<and> h' a = NULL"
proof -
  from assms have ch: "chain h (ul_first l) (as @ [p, a] @ bs) NULL"
    and d: "distinct (as @ p # a # bs)"
    using ul_list_chain [OF assms] ul_list_distinct [OF assms] by simp_all
  from chain_bypass [OF ch] d
  have "chain (h(p := h a, a := NULL)) (ul_first l) (as @ p # bs) NULL" by simp
  with assms d show ?thesis
    by (cases bs rule: rev_cases) (auto simp: utils_list_remove_def ul_list_def)
qed

subsection \<open>Pool initialisation\<close>

lemma pool_init_loop_correct:
  assumes "0 < sz" and "ul_list h l xs" and "\<forall>x\<in>set xs. x < pool"
  shows "\<exists>h' m' l'. utils_list_pool_init_loop n h m l pool sz dflt = Some (h', m', l') \<and>
    ul_list h' l' (xs @ map (\<lambda>i. pool + i * sz) [0..<n]) \<and>
    (\<forall>i<n. \<forall>e nx. dflt = Some (nx, e) \<longrightarrow> m' (pool + i * sz) = e) \<and>
    (\<forall>a<pool. m' a = m a)"
  using assms(2,3)
proof (induction n arbitrary: h m l pool xs)
  case 0
  then show ?case by simp
next
  case (Suc n)
  define h1 m1 where "h1 = (case dflt of None \<Rightarrow> h | Some (nx, e) \<Rightarrow> h(pool := nx))"
    and "m1 = (case dflt of None \<Rightarrow> m | Some (nx, e) \<Rightarrow> m(pool := e))"
  from Suc.prems have fresh: "pool \<notin> set xs" by auto
  with Suc.prems have "ul_list h1 l xs"
    by (auto simp: h1_def ul_list_upd split: option.splits)
  from ul_list_push_back [OF this fresh] obtain h2 l2 where
    push: "utils_list_push_back h1 l (Some pool) = Some (h2, l2)" "ul_list h2 l2 (xs @ [pool])"
    by blast
  from Suc.prems assms(1) have "\<forall>x\<in>set (xs @ [pool]). x < pool + sz" by auto
  from Suc.IH [OF push(2) this, of m1] obtain h' m' l' where
    IH: "utils_list_pool_init_loop n h2 m1 l2 (pool + sz) sz dflt = Some (h', m', l')"
      "ul_list h' l' ((xs @ [pool]) @ map (\<lambda>i. pool + sz + i * sz) [0..<n])"
      "\<forall>i<n. \<forall>e nx. dflt = Some (nx, e) \<longrightarrow> m' (pool + sz + i * sz) = e"
      "\<forall>a<pool + sz. m' a = m1 a" by blast
  have idx: "map (\<lambda>i. pool + i * sz) [0..<Suc n] = pool # map (\<lambda>i. pool + sz + i * sz) [0..<n]"
    by (simp add: upt_conv_Cons map_Suc_upt [symmetric] del: upt_Suc map_Suc_upt)
  have "\<forall>i<Suc n. \<forall>e nx. dflt = Some (nx, e) \<longrightarrow> m' (pool + i * sz) = e"
  proof (intro allI impI)
    fix i e nx assume i: "i < Suc n" and dflt: "dflt = Some (nx, e)"
    show "m' (pool + i * sz) = e"
    proof (cases i)
      case 0
      then show ?thesis using IH(4) assms(1) dflt by (simp add: m1_def)
    next
      case (Suc j)
      then show ?thesis using IH(3) i dflt by (simp add: add.assoc)
    qed
  qed
  moreover have "\<forall>a<pool. m' a = m a" using IH(4) by (auto simp: m1_def split: option.splits)
  moreover have "utils_list_pool_init_loop (Suc n) h m l pool sz dflt = Some (h', m', l')"
    using push(1) IH(1) by (auto simp: h1_def m1_def split: option.splits)
  ultimately show ?case using IH(2) unfolding idx by auto
qed

section \<open>utils\_slist\_t\<close>

text \<open>The head of a \<open>utils_slist_t\<close> list is itself a node, given by its address.\<close>

definition utils_slist_init :: "hdrs \<Rightarrow> addr \<Rightarrow> hdrs" where
  "utils_slist_init h head = h(head := NULL)"

definition utils_slist_empty :: "hdrs \<Rightarrow> addr \<Rightarrow> bool" where
  "utils_slist_empty h head = (h head = NULL)"

definition utils_slist_first :: "hdrs \<Rightarrow> addr \<Rightarrow> ptr" where
  "utils_slist_first h l = h l"

definition utils_slist_next :: "hdrs \<Rightarrow> addr \<Rightarrow> ptr" where
  "utils_slist_next h l = h l"

definition utils_slist_add :: "hdrs \<Rightarrow> addr \<Rightarrow> addr \<Rightarrow> hdrs" where
  "utils_slist_add h node head = (let h = h(node := h head) in h(head := Some node))"

partial_function (option) utils_slist_tail :: "hdrs \<Rightarrow> addr \<Rightarrow> addr option" where
  "utils_slist_tail h l = (case h l of None \<Rightarrow> Some l | Some n \<Rightarrow> utils_slist_tail h n)"

declare utils_slist_tail.simps [code]

definition utils_slist_add_tail :: "hdrs \<Rightarrow> addr \<Rightarrow> addr \<Rightarrow> hdrs option" where
  "utils_slist_add_tail h node head = do {
     head \<leftarrow> utils_slist_tail h head;
     Some (utils_slist_add h node head)
   }"

definition utils_slist_append :: "hdrs \<Rightarrow> addr \<Rightarrow> addr \<Rightarrow> hdrs option" where
  "utils_slist_append h l n = do {
     node \<leftarrow> utils_slist_tail h l;
     let h = h(node := Some n);
     Some (h(n := NULL))
   }"

partial_function (option) utils_slist_del :: "hdrs \<Rightarrow> addr \<Rightarrow> addr \<Rightarrow> hdrs option" where
  "utils_slist_del h node head = (case h head of None \<Rightarrow> Some h
     | Some n \<Rightarrow> if n = node then Some (h(head := h node)) else utils_slist_del h node n)"

declare utils_slist_del.simps [code]

partial_function (option) utils_slist_number_loop :: "hdrs \<Rightarrow> addr \<Rightarrow> int \<Rightarrow> int option" where
  "utils_slist_number_loop h cur num =
     (case h cur of None \<Rightarrow> Some num | Some n \<Rightarrow> utils_slist_number_loop h n (num + 1))"

declare utils_slist_number_loop.simps [code]

definition utils_slist_entry_number :: "hdrs \<Rightarrow> addr \<Rightarrow> int option" where
  "utils_slist_entry_number h queue = utils_slist_number_loop h queue 0"

definition sl_list :: "hdrs \<Rightarrow> addr \<Rightarrow> addr list \<Rightarrow> bool" where
  "sl_list h head xs \<longleftrightarrow> chain h (Some head) (head # xs) NULL"

lemma sl_list_distinct: "sl_list h head xs \<Longrightarrow> distinct (head # xs)"
  unfolding sl_list_def by (rule chain_distinct)

lemma sl_list_init: "sl_list (utils_slist_init h head) head []"
  by (simp add: sl_list_def utils_slist_init_def)

lemma sl_list_empty: "sl_list h head xs \<Longrightarrow> utils_slist_empty h head \<longleftrightarrow> xs = []"
  by (cases xs) (auto simp: sl_list_def utils_slist_empty_def)

lemma sl_list_first: "sl_list h head xs \<Longrightarrow>
    utils_slist_first h head = (if xs = [] then NULL else Some (hd xs))"
  by (cases xs) (auto simp: sl_list_def utils_slist_first_def)

lemma slist_tail_chain: "chain h (Some p) (p # xs) NULL \<Longrightarrow> utils_slist_tail h p = Some (last (p # xs))"
proof (induction xs arbitrary: p)
  case Nil
  then show ?case by (simp add: utils_slist_tail.simps)
next
  case (Cons x xs)
  then show ?case by (subst utils_slist_tail.simps) auto
qed

lemma sl_list_append:
  assumes "sl_list h head xs" and "n \<notin> set (head # xs)"
  shows "\<exists>h'. utils_slist_append h head n = Some h' \<and> sl_list h' head (xs @ [n])"
proof -
  obtain zs y where zs: "head # xs = zs @ [y]" by (metis append_butlast_last_id list.distinct(1))
  from assms(1) have ch: "chain h (Some head) (zs @ [y]) NULL" and d: "distinct (zs @ [y])"
    unfolding zs [symmetric] sl_list_def by (assumption, rule chain_distinct)
  then have "chain (h(y := Some n)) (Some head) (zs @ [y]) (Some n)"
    by (intro chain_relink) auto
  with assms(2) have "chain (h(y := Some n, n := NULL)) (Some head) ((zs @ [y]) @ [n]) NULL"
    unfolding zs by (auto simp: chain_append)
  then have "sl_list (h(y := Some n, n := NULL)) head (xs @ [n])"
    unfolding zs [symmetric] sl_list_def by simp
  moreover have "utils_slist_tail h head = Some y"
    using slist_tail_chain assms(1) zs unfolding sl_list_def by (metis last_snoc)
  ultimately show ?thesis by (simp add: utils_slist_append_def)
qed

lemma slist_del_present:
  "chain h (Some p) (p # as @ a # bs) NULL \<Longrightarrow>
    utils_slist_del h a p = Some (h(last (p # as) := h a))"
proof (induction as arbitrary: p)
  case Nil
  then show ?case by (auto simp: utils_slist_del.simps fun_eq_iff)
next
  case (Cons x xs)
  from Cons.prems have "distinct (p # (x # xs) @ a # bs)" by (rule chain_distinct)
  with Cons show ?case by (subst utils_slist_del.simps) auto
qed

lemma slist_del_absent:
  "chain h (Some p) (p # as) NULL \<Longrightarrow> a \<notin> set as \<Longrightarrow> utils_slist_del h a p = Some h"
proof (induction as arbitrary: p)
  case Nil
  then show ?case by (simp add: utils_slist_del.simps)
next
  case (Cons x xs)
  then show ?case by (subst utils_slist_del.simps) auto
qed

lemma sl_list_del:
  assumes "sl_list h head xs"
  shows "\<exists>h'. utils_slist_del h a head = Some h' \<and> sl_list h' head (remove1 a xs) \<and> h' a = h a"
proof (cases "a \<in> set xs")
  case True
  then obtain as bs where xs: "xs = as @ a # bs" "a \<notin> set as" by (metis split_first_occurrence)
  obtain zs y where zs: "head # as = zs @ [y]" by (metis append_butlast_last_id list.distinct(1))
  from assms xs have ch: "chain h (Some head) (head # as @ a # bs) NULL" by (simp add: sl_list_def)
  then have "utils_slist_del h a head = Some (h(y := h a))"
    using slist_del_present [of h head as a bs] zs by (simp add: last_snoc [symmetric] del: last_snoc)
  moreover have ch2: "chain h (Some head) (zs @ [y, a] @ bs) NULL"
    using ch zs by (metis append.assoc append_Cons append_Nil)
  then have "chain (h(y := h a)) (Some head) (zs @ [y] @ bs) NULL" by (rule chain_bypass)
  then have "sl_list (h(y := h a)) head (as @ bs)"
    unfolding sl_list_def using zs by (metis append.assoc append_Cons)
  moreover have "distinct (zs @ [y, a] @ bs)" using ch2 by (rule chain_distinct)
  ultimately show ?thesis using xs by (auto simp: remove1_append)
next
  case False
  with assms show ?thesis by (auto simp: sl_list_def remove1_idem slist_del_absent)
qed

lemma slist_number_chain:
  "chain h (Some p) (p # xs) NULL \<Longrightarrow> utils_slist_number_loop h p k = Some (k + int (length xs))"
proof (induction xs arbitrary: p k)
  case Nil
  then show ?case by (simp add: utils_slist_number_loop.simps)
next
  case (Cons x xs)
  then show ?case by (subst utils_slist_number_loop.simps) (auto simp: Cons.IH)
qed

lemma sl_list_entry_number:
  "sl_list h head xs \<Longrightarrow> utils_slist_entry_number h head = Some (int (length xs))"
  by (simp add: sl_list_def utils_slist_entry_number_def slist_number_chain)

lemma sl_list_tail: "sl_list h head xs \<Longrightarrow> utils_slist_tail h head = Some (last (head # xs))"
  unfolding sl_list_def by (rule slist_tail_chain)

section \<open>The queue interface\<close>

text \<open>
  What a client of the list relies on when it uses it as a queue: \<open>rep h q xs\<close> relates the heap
  and the list structure to the sequence of queued nodes.
\<close>

primrec enq_all :: "('h \<Rightarrow> 'q \<Rightarrow> ptr \<Rightarrow> ('h \<times> 'q) option) \<Rightarrow> 'h \<Rightarrow> 'q \<Rightarrow> addr list \<Rightarrow> ('h \<times> 'q) option" where
  "enq_all enq h q [] = Some (h, q)"
| "enq_all enq h q (x # xs) = do { (h, q) \<leftarrow> enq h q (Some x); enq_all enq h q xs }"

primrec deq_all :: "('h \<Rightarrow> 'q \<Rightarrow> (ptr \<times> 'q) option) \<Rightarrow> 'h \<Rightarrow> 'q \<Rightarrow> nat \<Rightarrow> (ptr list \<times> 'q) option" where
  "deq_all deq h q 0 = Some ([], q)"
| "deq_all deq h q (Suc n) = do {
     (p, q) \<leftarrow> deq h q;
     (ps, q) \<leftarrow> deq_all deq h q n;
     Some (p # ps, q)
   }"

locale fifo_chain =
  fixes rep :: "'h \<Rightarrow> 'q \<Rightarrow> addr list \<Rightarrow> bool"
    and enq :: "'h \<Rightarrow> 'q \<Rightarrow> ptr \<Rightarrow> ('h \<times> 'q) option"
    and deq :: "'h \<Rightarrow> 'q \<Rightarrow> (ptr \<times> 'q) option"
  assumes enq_ok: "rep h q xs \<Longrightarrow> x \<notin> set xs \<Longrightarrow>
      \<exists>h' q'. enq h q (Some x) = Some (h', q') \<and> rep h' q' (xs @ [x])"
    and deq_Nil: "rep h q [] \<Longrightarrow> deq h q = Some (NULL, q)"
    and deq_Cons: "rep h q (x # xs) \<Longrightarrow> \<exists>q'. deq h q = Some (Some x, q') \<and> rep h q' xs"
begin

lemma enq_all_rep:
  "rep h q xs \<Longrightarrow> distinct (xs @ ys) \<Longrightarrow>
    \<exists>h' q'. enq_all enq h q ys = Some (h', q') \<and> rep h' q' (xs @ ys)"
proof (induction ys arbitrary: h q xs)
  case (Cons y ys)
  then obtain h1 q1 where "enq h q (Some y) = Some (h1, q1)" "rep h1 q1 (xs @ [y])"
    using enq_ok [of h q xs y] by auto
  with Cons.IH [of h1 q1 "xs @ [y]"] Cons.prems show ?case by auto
qed simp

lemma deq_all_rep:
  "rep h q (xs @ ys) \<Longrightarrow>
    \<exists>q'. deq_all deq h q (length xs) = Some (map Some xs, q') \<and> rep h q' ys"
proof (induction xs arbitrary: q)
  case (Cons x xs)
  then obtain q1 where "deq h q = Some (Some x, q1)" "rep h q1 (xs @ ys)"
    using deq_Cons [of h q x "xs @ ys"] by auto
  with Cons.IH [of q1] show ?case by auto
qed simp

lemma fifo_order:
  assumes "rep h q []" and "distinct xs"
  shows "\<exists>h' q' q''. enq_all enq h q xs = Some (h', q') \<and>
    deq_all deq h' q' (length xs) = Some (map Some xs, q'') \<and> deq h' q'' = Some (NULL, q'')"
  using enq_all_rep [of h q "[]" xs] deq_all_rep [of _ _ xs "[]"] deq_Nil assms by fastforce

end

interpretation ulq: fifo_chain ul_list utils_list_push_back utils_list_pop_front
proof unfold_locales
  fix h l xs x
  assume "ul_list h l xs" "x \<notin> set xs"
  from ul_list_push_back [OF this]
  show "\<exists>h' q'. utils_list_push_back h l (Some x) = Some (h', q') \<and> ul_list h' q' (xs @ [x])" by blast
qed (simp_all add: ul_list_pop_front_Nil ul_list_pop_front_Cons)

section \<open>Sequences of operations\<close>

datatype ul_op = PushBack addr | PushFront addr | PopFront | Extract addr
  | InsertAfter addr addr | InsertBefore addr addr

fun ul_exec :: "ul_op \<Rightarrow> hdrs \<times> utils_list \<Rightarrow> (hdrs \<times> utils_list) option" where
  "ul_exec (PushBack x) (h, l) = utils_list_push_back h l (Some x)"
| "ul_exec (PushFront x) (h, l) = utils_list_push_front h l (Some x)"
| "ul_exec PopFront (h, l) = do { (p, l) \<leftarrow> utils_list_pop_front h l; Some (h, l) }"
| "ul_exec (Extract x) (h, l) = utils_list_extract h l (Some x)"
| "ul_exec (InsertAfter p e) (h, l) = utils_list_insert_after h l (Some p) (Some e)"
| "ul_exec (InsertBefore a e) (h, l) = utils_list_insert_before h l (Some a) (Some e)"

text \<open>The specification on sequences; \<open>None\<close> where the caller links a node twice or names an absent one.\<close>

fun ul_spec :: "ul_op \<Rightarrow> addr list \<Rightarrow> addr list option" where
  "ul_spec (PushBack x) xs = (if x \<in> set xs then None else Some (xs @ [x]))"
| "ul_spec (PushFront x) xs = (if x \<in> set xs then None else Some (x # xs))"
| "ul_spec PopFront xs = Some (tl xs)"
| "ul_spec (Extract x) xs = Some (remove1 x xs)"
| "ul_spec (InsertAfter p e) xs = (if p \<in> set xs \<and> e \<notin> set xs
     then Some (takeWhile (\<lambda>x. x \<noteq> p) xs @ p # e # tl (dropWhile (\<lambda>x. x \<noteq> p) xs)) else None)"
| "ul_spec (InsertBefore a e) xs = (if a \<in> set xs \<and> e \<notin> set xs
     then Some (takeWhile (\<lambda>x. x \<noteq> a) xs @ e # dropWhile (\<lambda>x. x \<noteq> a) xs) else None)"

fun ul_exec_all :: "ul_op list \<Rightarrow> hdrs \<times> utils_list \<Rightarrow> (hdrs \<times> utils_list) option" where
  "ul_exec_all [] s = Some s"
| "ul_exec_all (e # es) s = do { s \<leftarrow> ul_exec e s; ul_exec_all es s }"

fun ul_spec_all :: "ul_op list \<Rightarrow> addr list \<Rightarrow> addr list option" where
  "ul_spec_all [] xs = Some xs"
| "ul_spec_all (e # es) xs = do { xs \<leftarrow> ul_spec e xs; ul_spec_all es xs }"

lemma split_at_member:
  assumes "a \<in> set xs"
  obtains as bs where "xs = as @ a # bs" "takeWhile (\<lambda>x. x \<noteq> a) xs = as" "dropWhile (\<lambda>x. x \<noteq> a) xs = a # bs"
proof -
  obtain as bs where "xs = as @ a # bs" "a \<notin> set as" using assms by (metis split_first_occurrence)
  with that show thesis by (auto simp: takeWhile_append dropWhile_append)
qed

lemma ul_exec_refines:
  assumes "ul_list h l xs" and "ul_spec e xs = Some ys"
  shows "\<exists>h' l'. ul_exec e (h, l) = Some (h', l') \<and> ul_list h' l' ys"
proof (cases e)
  case (PushBack x)
  with assms ul_list_push_back [OF assms(1), of x] show ?thesis by (auto split: if_splits)
next
  case (PushFront x)
  with assms ul_list_push_front [OF assms(1), of x] show ?thesis by (auto split: if_splits)
next
  case PopFront
  with assms ul_list_pop_front_Nil ul_list_pop_front_Cons show ?thesis by (cases xs) fastforce+
next
  case (Extract x)
  with assms ul_list_extract [OF assms(1), of x] show ?thesis by auto
next
  case (InsertAfter p n)
  then have p: "p \<in> set xs" "n \<notin> set xs" using assms by (auto split: if_splits)
  obtain as bs where "xs = as @ p # bs" "takeWhile (\<lambda>x. x \<noteq> p) xs = as" "dropWhile (\<lambda>x. x \<noteq> p) xs = p # bs"
    using split_at_member [OF p(1)] .
  with InsertAfter p assms ul_list_insert_after [of h l as p bs n] show ?thesis by auto
next
  case (InsertBefore a n)
  then have p: "a \<in> set xs" "n \<notin> set xs" using assms by (auto split: if_splits)
  obtain as bs where "xs = as @ a # bs" "takeWhile (\<lambda>x. x \<noteq> a) xs = as" "dropWhile (\<lambda>x. x \<noteq> a) xs = a # bs"
    using split_at_member [OF p(1)] .
  with InsertBefore p assms ul_list_insert_before [of h l as a bs n] show ?thesis by auto
qed

lemma ul_exec_all_refines:
  "ul_list h l xs \<Longrightarrow> ul_spec_all es xs = Some ys \<Longrightarrow>
    \<exists>h' l'. ul_exec_all es (h, l) = Some (h', l') \<and> ul_list h' l' ys"
proof (induction es arbitrary: h l xs)
  case (Cons e es)
  then obtain xs1 where x: "ul_spec e xs = Some xs1" "ul_spec_all es xs1 = Some ys"
    by (auto split: bind_splits)
  from ul_exec_refines [OF Cons.prems(1) x(1)] obtain h1 l1
    where "ul_exec e (h, l) = Some (h1, l1)" "ul_list h1 l1 xs1" by blast
  with Cons.IH [OF _ x(2)] show ?case by auto
qed simp





text \<open>
  C20: \<open>utils_list_insert\<close> places the element before the first one for which the comparison asks for
  it, and at the end otherwise.
\<close>

theorem utils_list_insert_position:
  assumes "ul_list h l xs" and "e \<notin> set xs"
  shows "\<exists>h' l'. utils_list_insert h l (Some e) cmp = Some (h', l') \<and>
    ul_list h' l' (takeWhile (\<lambda>x. \<not> cmp (Some e) (Some x)) xs @ e #
                   dropWhile (\<lambda>x. \<not> cmp (Some e) (Some x)) xs)"
  by (rule ul_list_insert [OF assms])

theorem utils_list_insert_position_witness:
  "\<exists>h' l'. utils_list_insert ((\<lambda>_. NULL)(2 := Some 6)) \<lparr>ul_first = Some 2, ul_last = Some 6\<rparr> (Some 4)
      (\<lambda>a b. the a < the b) = Some (h', l') \<and> ul_list h' l' [2, 4, 6]"
  using utils_list_insert_position [of "(\<lambda>_. NULL)(2 := Some 6)" "\<lparr>ul_first = Some 2, ul_last = Some 6\<rparr>" "[2, 6]" 4
      "\<lambda>a b. the a < the b"] by (simp add: ul_list_def)

end
