(* ===== verification/Utils_Dlist.thy ===== *)
theory Utils_Dlist
  imports BL_Prelude
begin

text \<open>
  The circular doubly linked lists \<open>utils_dlist_t\<close> of \<open>utils/include/utils_list.h\<close>. The link
  fields are never \<open>NULL\<close> in a list, so they are plain addresses. \<open>dl_list d head xs\<close> says that
  the ring through \<open>head\<close> holds exactly the nodes \<open>xs\<close>, in both directions.
\<close>

record dlinks =
  d_prev :: "addr \<Rightarrow> addr"
  d_next :: "addr \<Rightarrow> addr"

definition dlist_add_between :: "dlinks \<Rightarrow> addr \<Rightarrow> addr \<Rightarrow> addr \<Rightarrow> dlinks" where
  "dlist_add_between d node prev nxt =
     (let d = d\<lparr>d_next := (d_next d)(node := nxt)\<rparr>;
          d = d\<lparr>d_prev := (d_prev d)(node := prev)\<rparr>;
          d = d\<lparr>d_next := (d_next d)(prev := node)\<rparr>
      in d\<lparr>d_prev := (d_prev d)(nxt := node)\<rparr>)"

definition utils_dlist_add :: "dlinks \<Rightarrow> addr \<Rightarrow> addr \<Rightarrow> dlinks" where
  "utils_dlist_add d node queue = dlist_add_between d node queue (d_next d queue)"

definition utils_dlist_add_tail :: "dlinks \<Rightarrow> addr \<Rightarrow> addr \<Rightarrow> dlinks" where
  "utils_dlist_add_tail d node queue = dlist_add_between d node (d_prev d queue) queue"

definition utils_dlist_del :: "dlinks \<Rightarrow> addr \<Rightarrow> dlinks" where
  "utils_dlist_del d node =
     (let prev = d_prev d node; nxt = d_next d node;
          d = d\<lparr>d_next := (d_next d)(prev := nxt)\<rparr>
      in d\<lparr>d_prev := (d_prev d)(nxt := prev)\<rparr>)"

definition utils_dlist_init :: "dlinks \<Rightarrow> addr \<Rightarrow> dlinks" where
  "utils_dlist_init d node = d\<lparr>d_prev := (d_prev d)(node := node), d_next := (d_next d)(node := node)\<rparr>"

definition INIT_UTILS_DLIST_HEAD :: "dlinks \<Rightarrow> addr \<Rightarrow> dlinks" where
  "INIT_UTILS_DLIST_HEAD d l =
     (let d = d\<lparr>d_next := (d_next d)(l := l)\<rparr> in d\<lparr>d_prev := (d_prev d)(l := l)\<rparr>)"

definition utils_dlist_empty :: "dlinks \<Rightarrow> addr \<Rightarrow> bool" where
  "utils_dlist_empty d head = (d_next d head = head)"

definition utils_dlist_first :: "dlinks \<Rightarrow> addr \<Rightarrow> addr" where
  "utils_dlist_first d head = d_next d head"

partial_function (option) utils_dlist_number_loop :: "dlinks \<Rightarrow> addr \<Rightarrow> addr \<Rightarrow> int \<Rightarrow> int option" where
  "utils_dlist_number_loop d queue cur num =
     (if d_next d cur \<noteq> queue then utils_dlist_number_loop d queue (d_next d cur) (num + 1)
      else Some num)"

declare utils_dlist_number_loop.simps [code]

definition utils_dlist_entry_number :: "dlinks \<Rightarrow> addr \<Rightarrow> int option" where
  "utils_dlist_entry_number d queue = utils_dlist_number_loop d queue queue 0"

section \<open>Segments and rings\<close>

text \<open>\<open>dseg N P a xs b\<close>: the \<open>next\<close> fields \<open>N\<close> lead from \<open>a\<close> over \<open>xs\<close> to \<open>b\<close>, and \<open>P\<close> leads back.\<close>

primrec dseg :: "(addr \<Rightarrow> addr) \<Rightarrow> (addr \<Rightarrow> addr) \<Rightarrow> addr \<Rightarrow> addr list \<Rightarrow> addr \<Rightarrow> bool" where
  "dseg N P a [] b = (N a = b \<and> P b = a)"
| "dseg N P a (x # xs) b = (N a = x \<and> P x = a \<and> dseg N P x xs b)"

definition dl_list :: "dlinks \<Rightarrow> addr \<Rightarrow> addr list \<Rightarrow> bool" where
  "dl_list d head xs \<longleftrightarrow> dseg (d_next d) (d_prev d) head xs head \<and> distinct (head # xs)"

lemma dseg_append: "dseg N P a (xs @ x # ys) b \<longleftrightarrow> dseg N P a xs x \<and> dseg N P x ys b"
  by (induction xs arbitrary: a) auto

lemma dseg_upd_next [simp]: "x \<notin> set (a # xs) \<Longrightarrow> dseg (N(x := v)) P a xs b = dseg N P a xs b"
  by (induction xs arbitrary: a) auto

lemma dseg_upd_prev [simp]: "x \<notin> set (xs @ [b]) \<Longrightarrow> dseg N (P(x := v)) a xs b = dseg N P a xs b"
  by (induction xs arbitrary: a) auto

lemma dseg_cong:
  "\<forall>x\<in>set (a # xs). N' x = N x \<Longrightarrow> \<forall>x\<in>set (xs @ [b]). P' x = P x
    \<Longrightarrow> dseg N' P' a xs b = dseg N P a xs b"
  by (induction xs arbitrary: a) auto

lemma dseg_first: "dseg N P a xs b \<Longrightarrow> N a = hd (xs @ [b])"
  by (cases xs) auto

lemma dseg_last: "dseg N P a xs b \<Longrightarrow> P b = last (a # xs)"
  by (induction xs arbitrary: a) auto

lemma dl_list_distinct: "dl_list d head xs \<Longrightarrow> distinct (head # xs)"
  by (simp add: dl_list_def)

lemma dl_list_init: "dl_list (INIT_UTILS_DLIST_HEAD d head) head []"
  by (simp add: dl_list_def INIT_UTILS_DLIST_HEAD_def Let_def)

lemma dl_list_empty: "dl_list d head xs \<Longrightarrow> utils_dlist_empty d head \<longleftrightarrow> xs = []"
  by (cases xs) (auto simp: dl_list_def utils_dlist_empty_def)

lemma dl_list_first: "dl_list d head (x # xs) \<Longrightarrow> utils_dlist_first d head = x"
  by (simp add: dl_list_def utils_dlist_first_def)

lemma dl_list_next: "dl_list d head (as @ x # bs) \<Longrightarrow> d_next d x = hd (bs @ [head])"
  by (auto simp: dl_list_def dseg_append dest: dseg_first)

lemma dl_list_frame:
  "dl_list d head xs \<Longrightarrow> \<forall>x\<in>set (head # xs). d_next d' x = d_next d x \<and> d_prev d' x = d_prev d x
    \<Longrightarrow> dl_list d' head xs"
  unfolding dl_list_def
  using dseg_cong [of head xs "d_next d'" "d_next d" head "d_prev d'" "d_prev d"] by auto

lemma dlist_add_between_links:
  "d_next (dlist_add_between d n p q) = (d_next d)(n := q, p := n)"
  "d_prev (dlist_add_between d n p q) = (d_prev d)(n := p, q := n)"
  by (simp_all add: dlist_add_between_def Let_def)

lemma utils_dlist_del_links:
  "d_next (utils_dlist_del d n) = (d_next d)(d_prev d n := d_next d n)"
  "d_prev (utils_dlist_del d n) = (d_prev d)(d_next d n := d_prev d n)"
  by (simp_all add: utils_dlist_del_def Let_def)

lemma dseg_add_between:
  assumes "dseg N P a (as @ bs) b" and "distinct (a # as @ bs)" and "b \<notin> set (as @ bs)"
    and "n \<notin> set (a # b # as @ bs)" and "p = last (a # as)" and "q = hd (bs @ [b])"
  shows "dseg (N(n := q, p := n)) (P(n := p, q := n)) a (as @ n # bs) b"
proof (cases as rule: rev_cases)
  case Nil
  with assms show ?thesis by (cases bs) auto
next
  case (snoc zs y)
  with assms show ?thesis by (cases bs) (auto simp: dseg_append)
qed

lemma dl_list_add_between:
  assumes "dl_list d head (as @ bs)" and "n \<notin> set (head # as @ bs)"
    and "p = last (head # as)" and "q = hd (bs @ [head])"
  shows "dl_list (dlist_add_between d n p q) head (as @ n # bs)"
  using assms dseg_add_between [of "d_next d" "d_prev d" head as bs head n p q]
  unfolding dl_list_def dlist_add_between_links by auto

lemma dl_list_add_after:
  assumes "dl_list d head (as @ bs)" and "n \<notin> set (head # as @ bs)" and "p = last (head # as)"
  shows "dl_list (utils_dlist_add d n p) head (as @ n # bs)"
proof -
  have "d_next d p = hd (bs @ [head])"
  proof (cases as rule: rev_cases)
    case Nil
    with assms show ?thesis by (auto simp: dl_list_def dest: dseg_first)
  next
    case (snoc zs y)
    with assms show ?thesis using dl_list_next [of d head zs y bs] by auto
  qed
  with assms show ?thesis unfolding utils_dlist_add_def by (intro dl_list_add_between) auto
qed

lemma dl_list_add_head: "dl_list d head xs \<Longrightarrow> n \<notin> set (head # xs) \<Longrightarrow>
    dl_list (utils_dlist_add d n head) head (n # xs)"
  using dl_list_add_after [of d head "[]" xs n head] by simp

lemma dl_list_add_tail: "dl_list d head xs \<Longrightarrow> n \<notin> set (head # xs) \<Longrightarrow>
    dl_list (utils_dlist_add_tail d n head) head (xs @ [n])"
  unfolding utils_dlist_add_tail_def
  by (rule dl_list_add_between [of d head xs "[]", simplified]) (auto simp: dl_list_def dest: dseg_last)

lemma dseg_del:
  assumes "dseg N P a (as @ x # bs) b" and "distinct (a # as @ x # bs)" and "b \<notin> set (as @ x # bs)"
  shows "dseg (N(P x := N x)) (P(N x := P x)) a (as @ bs) b"
proof (cases as rule: rev_cases)
  case Nil
  with assms show ?thesis by (cases bs) auto
next
  case (snoc zs y)
  with assms show ?thesis by (cases bs) (auto simp: dseg_append)
qed

lemma dl_list_del:
  assumes "dl_list d head (as @ x # bs)"
  shows "dl_list (utils_dlist_del d x) head (as @ bs)"
  using assms dseg_del [of "d_next d" "d_prev d" head as x bs head]
  unfolding dl_list_def utils_dlist_del_links by auto

lemma dl_list_del_links:
  assumes "dl_list d head (as @ x # bs)"
  shows "d_next d x \<in> set (head # as @ bs)" and "d_prev d x \<in> set (head # as @ bs)"
proof -
  from assms show "d_next d x \<in> set (head # as @ bs)"
    using dl_list_next [OF assms] by (cases bs) auto
  from assms have "d_prev d x = last (head # as)"
    by (auto simp: dl_list_def dseg_append dest: dseg_last)
  then show "d_prev d x \<in> set (head # as @ bs)"
    by (metis UnCI append_Cons last_in_set list.distinct(1) set_append)
qed

text \<open>Two rings with no node in common do not disturb each other.\<close>

lemma dl_list_add_other:
  assumes "dl_list d h1 xs" and "p \<notin> set (h1 # xs)" and "n \<notin> set (h1 # xs)"
    and "d_next d p \<notin> set (h1 # xs)"
  shows "dl_list (utils_dlist_add d n p) h1 xs"
  using assms(1) by (rule dl_list_frame)
    (use assms in \<open>auto simp: utils_dlist_add_def dlist_add_between_links\<close>)

lemma dl_list_del_other:
  assumes "dl_list d h1 xs" and "dl_list d h2 (as @ x # bs)"
    and "set (h1 # xs) \<inter> set (h2 # as @ x # bs) = {}"
  shows "dl_list (utils_dlist_del d x) h1 xs"
  using assms(1)
proof (rule dl_list_frame)
  show "\<forall>y\<in>set (h1 # xs). d_next (utils_dlist_del d x) y = d_next d y \<and>
      d_prev (utils_dlist_del d x) y = d_prev d y"
    using assms(3) dl_list_del_links [OF assms(2)] unfolding utils_dlist_del_links by fastforce
qed

lemma dlist_number_loop:
  assumes "dseg N P c xs q" and "q \<notin> set xs" and "d_next d = N"
  shows "utils_dlist_number_loop d q c k = Some (k + int (length xs))"
  using assms
proof (induction xs arbitrary: c k)
  case Nil
  then show ?case by (simp add: utils_dlist_number_loop.simps)
next
  case (Cons x xs)
  then show ?case by (subst utils_dlist_number_loop.simps) auto
qed

lemma dl_list_entry_number: "dl_list d head xs \<Longrightarrow>
    utils_dlist_entry_number d head = Some (int (length xs))"
  unfolding utils_dlist_entry_number_def dl_list_def
  using dlist_number_loop [of "d_next d" "d_prev d" head xs head d 0] by auto

section \<open>Sequences of operations\<close>

datatype dl_op = DAdd addr | DAddTail addr | DDel addr

fun dl_exec :: "addr \<Rightarrow> dl_op \<Rightarrow> dlinks \<Rightarrow> dlinks" where
  "dl_exec head (DAdd n) d = utils_dlist_add d n head"
| "dl_exec head (DAddTail n) d = utils_dlist_add_tail d n head"
| "dl_exec head (DDel n) d = utils_dlist_del d n"

fun dl_spec :: "addr \<Rightarrow> dl_op \<Rightarrow> addr list \<Rightarrow> addr list option" where
  "dl_spec head (DAdd n) xs = (if n \<in> set (head # xs) then None else Some (n # xs))"
| "dl_spec head (DAddTail n) xs = (if n \<in> set (head # xs) then None else Some (xs @ [n]))"
| "dl_spec head (DDel n) xs = (if n \<in> set xs then Some (remove1 n xs) else None)"

fun dl_spec_all :: "addr \<Rightarrow> dl_op list \<Rightarrow> addr list \<Rightarrow> addr list option" where
  "dl_spec_all head [] xs = Some xs"
| "dl_spec_all head (e # es) xs = do { xs \<leftarrow> dl_spec head e xs; dl_spec_all head es xs }"

lemma dl_exec_refines:
  assumes "dl_list d head xs" and "dl_spec head e xs = Some ys"
  shows "dl_list (dl_exec head e d) head ys"
proof (cases e)
  case (DDel n)
  then have "n \<in> set xs" using assms by (auto split: if_splits)
  then obtain as bs where xs: "xs = as @ n # bs" "n \<notin> set as" by (metis split_first_occurrence)
  with DDel assms dl_list_del [of d head as n bs] show ?thesis by (auto simp: remove1_append split: if_splits)
qed (use assms in \<open>auto intro: dl_list_add_head dl_list_add_tail split: if_splits\<close>)

lemma dl_exec_all_refines:
  "dl_list d head xs \<Longrightarrow> dl_spec_all head es xs = Some ys \<Longrightarrow> dl_list (fold (dl_exec head) es d) head ys"
proof (induction es arbitrary: d xs)
  case (Cons e es)
  then obtain xs1 where x: "dl_spec head e xs = Some xs1" "dl_spec_all head es xs1 = Some ys"
    by (auto split: bind_splits)
  show ?case using Cons.IH [OF dl_exec_refines [OF Cons.prems(1) x(1)] x(2)] by simp
qed simp

text \<open>
  C14: any sequence of additions and deletions on an initialised doubly linked list keeps both link
  directions consistent and represents exactly the sequence the specification gives;
  \<open>utils_dlist_empty\<close>, \<open>utils_dlist_first\<close> and \<open>utils_dlist_entry_number\<close> read it off.
\<close>

theorem utils_dlist_refines_sequence:
  assumes "dl_spec_all head es [] = Some ys" and "d' = fold (dl_exec head) es (INIT_UTILS_DLIST_HEAD d head)"
  shows "dl_list d' head ys \<and> (utils_dlist_empty d' head \<longleftrightarrow> ys = []) \<and>
    utils_dlist_entry_number d' head = Some (int (length ys)) \<and> utils_dlist_first d' head = hd (ys @ [head])"
proof -
  have l: "dl_list d' head ys" unfolding assms(2) by (rule dl_exec_all_refines [OF dl_list_init assms(1)])
  moreover have "utils_dlist_first d' head = hd (ys @ [head])"
    using l by (cases ys) (auto simp: utils_dlist_first_def dl_list_def)
  ultimately show ?thesis using dl_list_empty [OF l] dl_list_entry_number [OF l] by simp
qed

theorem utils_dlist_refines_sequence_witness:
  "dl_list (fold (dl_exec 1) [DAdd 5, DAddTail 7, DDel 5, DAdd 3]
     (INIT_UTILS_DLIST_HEAD \<lparr>d_prev = \<lambda>_. 0, d_next = \<lambda>_. 0\<rparr> 1)) 1 [3, 7]"
  using utils_dlist_refines_sequence [of 1 "[DAdd 5, DAddTail 7, DDel 5, DAdd 3]" "[3, 7]"
      _ "\<lparr>d_prev = \<lambda>_. 0, d_next = \<lambda>_. 0\<rparr>"] by simp

end
