(* ===== verification/Utils_RingBlk.thy ===== *)
theory Utils_RingBlk
  imports Utils_List
begin

text \<open>
  The ring block buffer of \<open>utils/src/utils_ringblk.c\<close>: blocks of a ring buffer that are handed
  out, put, got and freed. Addresses and sizes are 32-bit words, so that the pointer differences
  \<open>empty1\<close> and \<open>empty2\<close> wrap as in C. The block list is a \<open>utils_slist_t\<close>: its head has address 0
  and the list node of block \<open>i\<close> of the block set has address \<open>Suc i\<close>. The critical sections make
  every operation atomic, and a failed assertion has the value \<open>None\<close>.
\<close>

section \<open>State\<close>

datatype rbb_status = RBB_BLK_UNUSED | RBB_BLK_INITED | RBB_BLK_PUT | RBB_BLK_GET

record utils_rbb_blk =
  status :: rbb_status
  bsize :: u32
  bbuf :: u32

record utils_rbb =
  rbuf :: u32
  rbuf_size :: u32
  blk_set :: "utils_rbb_blk list"
  blk_max_num :: u32
  blk_list :: hdrs

record utils_rbb_blk_queue =
  blocks :: nat
  blk_num :: u32

abbreviation (input) list_head :: addr where
  "list_head \<equiv> 0"

definition node_of :: "nat \<Rightarrow> addr" where
  "node_of i = Suc i"

definition entry_of :: "addr \<Rightarrow> nat" where
  "entry_of a = a - 1"

lemma entry_node [simp]: "entry_of (node_of i) = i" "node_of i \<noteq> list_head" "node_of i = node_of j \<longleftrightarrow> i = j"
  by (simp_all add: entry_of_def node_of_def)

definition get_blk :: "utils_rbb \<Rightarrow> nat \<Rightarrow> utils_rbb_blk option" where
  "get_blk r i = (if i < length (blk_set r) then Some (blk_set r ! i) else None)"

definition upd_blk :: "utils_rbb \<Rightarrow> nat \<Rightarrow> (utils_rbb_blk \<Rightarrow> utils_rbb_blk) \<Rightarrow> utils_rbb" where
  "upd_blk r i f = r\<lparr>blk_set := (blk_set r)[i := f (blk_set r ! i)]\<rparr>"

lemma upd_blk_simps [simp]:
  "blk_set (upd_blk r i f) = (blk_set r)[i := f (blk_set r ! i)]" "rbuf (upd_blk r i f) = rbuf r"
  "rbuf_size (upd_blk r i f) = rbuf_size r" "blk_max_num (upd_blk r i f) = blk_max_num r"
  "blk_list (upd_blk r i f) = blk_list r"
  by (simp_all add: upd_blk_def)

section \<open>Operations\<close>

definition utils_rbb_init :: "utils_rbb \<Rightarrow> u32 \<Rightarrow> u32 \<Rightarrow> utils_rbb_blk list \<Rightarrow> u32 \<Rightarrow> utils_rbb" where
  "utils_rbb_init rbb buf buf_size block_set max_num =
     rbb\<lparr>rbuf := buf, rbuf_size := buf_size, blk_max_num := max_num,
         blk_list := utils_slist_init (blk_list rbb) list_head,
         blk_set := map (\<lambda>b. b\<lparr>status := RBB_BLK_UNUSED\<rparr>) (take (unat max_num) block_set) @
                    drop (unat max_num) block_set\<rparr>"

text \<open>
  \<open>utils_rbb_create\<close>: the three booleans tell whether the allocator gave the object, the buffer
  and the block set; the second result is the trace of successful allocations and of releases.
\<close>

datatype rbb_obj = RbbObj | RbbBuf | RbbSet

datatype mem_event = Malloc rbb_obj | Free rbb_obj

definition utils_rbb_create ::
  "bool \<Rightarrow> bool \<Rightarrow> bool \<Rightarrow> utils_rbb \<Rightarrow> u32 \<Rightarrow> utils_rbb_blk list \<Rightarrow> u32 \<Rightarrow> u32 \<Rightarrow> utils_rbb option \<times> mem_event list" where
  "utils_rbb_create m1 m2 m3 rbb buf block_set buf_size max_num =
     (if \<not> m1 then (None, [])
      else if \<not> m2 then (None, [Malloc RbbObj, Free RbbObj])
      else if \<not> m3 then (None, [Malloc RbbObj, Malloc RbbBuf, Free RbbBuf, Free RbbObj])
      else (Some (utils_rbb_init rbb buf buf_size block_set max_num), [Malloc RbbObj, Malloc RbbBuf, Malloc RbbSet]))"

definition utils_rbb_destroy :: "utils_rbb \<Rightarrow> mem_event list" where
  "utils_rbb_destroy rbb = [Free RbbBuf, Free RbbSet, Free RbbObj]"

fun find_blk :: "(rbb_status \<Rightarrow> bool) \<Rightarrow> utils_rbb_blk list \<Rightarrow> nat \<Rightarrow> nat option" where
  "find_blk P [] i = None"
| "find_blk P (b # bs) i = (if P (status b) then Some i else find_blk P bs (Suc i))"

definition utils_rbb_find_used_blk :: "utils_rbb \<Rightarrow> nat option" where
  "utils_rbb_find_used_blk rbb =
     find_blk (\<lambda>s. s \<noteq> RBB_BLK_UNUSED) (take (unat (blk_max_num rbb)) (blk_set rbb)) 0"

definition utils_rbb_find_empty_blk :: "utils_rbb \<Rightarrow> nat option" where
  "utils_rbb_find_empty_blk rbb =
     find_blk (\<lambda>s. s = RBB_BLK_UNUSED) (take (unat (blk_max_num rbb)) (blk_set rbb)) 0"

text \<open>The four assignments that hand out block \<open>n\<close>.\<close>

definition rbb_place :: "utils_rbb \<Rightarrow> nat \<Rightarrow> u32 \<Rightarrow> u32 \<Rightarrow> (nat option \<times> utils_rbb) option" where
  "rbb_place rbb n a sz = do {
     l \<leftarrow> utils_slist_append (blk_list rbb) list_head (node_of n);
     Some (Some n, upd_blk (rbb\<lparr>blk_list := l\<rparr>) n (\<lambda>b. b\<lparr>status := RBB_BLK_INITED, bbuf := a, bsize := sz\<rparr>))
   }"

definition utils_rbb_blk_alloc :: "utils_rbb \<Rightarrow> u32 \<Rightarrow> (nat option \<times> utils_rbb) option" where
  "utils_rbb_blk_alloc rbb blk_size =
     (if \<not> blk_size < 2 ^ 24 then None
      else do {
        list_num \<leftarrow> utils_slist_entry_number (blk_list rbb) list_head;
        case utils_rbb_find_empty_blk rbb of
          None \<Rightarrow> Some (None, rbb)
        | Some new \<Rightarrow>
            if \<not> word_of_int list_num < blk_max_num rbb then Some (None, rbb)
            else if list_num > 0 then do {
              hp \<leftarrow> utils_slist_first (blk_list rbb) list_head;
              head \<leftarrow> get_blk rbb (entry_of hp);
              tp \<leftarrow> utils_slist_tail (blk_list rbb) list_head;
              tail \<leftarrow> get_blk rbb (entry_of tp);
              if bbuf head \<le> bbuf tail then
                let empty1 = (rbuf rbb + rbuf_size rbb) - (bbuf tail + bsize tail);
                    empty2 = bbuf head - rbuf rbb in
                if empty1 \<ge> blk_size then rbb_place rbb new (bbuf tail + bsize tail) blk_size
                else if empty2 \<ge> blk_size then rbb_place rbb new (rbuf rbb) blk_size
                else Some (None, rbb)
              else
                let empty1 = bbuf head - (bbuf tail + bsize tail) in
                if empty1 \<ge> blk_size then rbb_place rbb new (bbuf tail + bsize tail) blk_size
                else Some (None, rbb)
            } else rbb_place rbb new (rbuf rbb) blk_size
      })"

definition utils_rbb_blk_put :: "utils_rbb \<Rightarrow> nat \<Rightarrow> utils_rbb option" where
  "utils_rbb_blk_put rbb i = do {
     b \<leftarrow> get_blk rbb i;
     if status b = RBB_BLK_INITED then Some (upd_blk rbb i (\<lambda>b. b\<lparr>status := RBB_BLK_PUT\<rparr>)) else None
   }"

partial_function (option) rbb_get_loop :: "utils_rbb \<Rightarrow> ptr \<Rightarrow> (nat option \<times> utils_rbb) option" where
  "rbb_get_loop rbb node = (case node of
      None \<Rightarrow> Some (None, rbb)
    | Some a \<Rightarrow> do {
        b \<leftarrow> get_blk rbb (entry_of a);
        if status b = RBB_BLK_PUT
        then Some (Some (entry_of a), upd_blk rbb (entry_of a) (\<lambda>b. b\<lparr>status := RBB_BLK_GET\<rparr>))
        else rbb_get_loop rbb (utils_slist_next (blk_list rbb) a)
      })"

declare rbb_get_loop.simps [code]

definition utils_rbb_blk_get :: "utils_rbb \<Rightarrow> (nat option \<times> utils_rbb) option" where
  "utils_rbb_blk_get rbb =
     (if utils_slist_empty (blk_list rbb) list_head then Some (None, rbb)
      else rbb_get_loop rbb (utils_slist_first (blk_list rbb) list_head))"

definition utils_rbb_blk_size :: "utils_rbb \<Rightarrow> nat \<Rightarrow> u32 option" where
  "utils_rbb_blk_size rbb i = map_option bsize (get_blk rbb i)"

definition utils_rbb_blk_buf :: "utils_rbb \<Rightarrow> nat \<Rightarrow> u32 option" where
  "utils_rbb_blk_buf rbb i = map_option bbuf (get_blk rbb i)"

definition utils_rbb_blk_free :: "utils_rbb \<Rightarrow> nat \<Rightarrow> utils_rbb option" where
  "utils_rbb_blk_free rbb i = do {
     b \<leftarrow> get_blk rbb i;
     if status b = RBB_BLK_UNUSED then None
     else do {
       l \<leftarrow> utils_slist_del (blk_list rbb) (node_of i) list_head;
       Some (upd_blk (rbb\<lparr>blk_list := l\<rparr>) i (\<lambda>b. b\<lparr>status := RBB_BLK_UNUSED\<rparr>))
     }
   }"

text \<open>
  The loop of \<open>utils_rbb_blk_queue_get\<close>; \<open>last_block\<close> is \<open>None\<close> until the first put block. The
  next node is read from the node just unlinked.
\<close>

partial_function (option) rbb_queue_loop ::
  "u32 \<Rightarrow> ptr \<Rightarrow> nat option \<Rightarrow> u32 \<Rightarrow> utils_rbb_blk_queue \<Rightarrow> utils_rbb
    \<Rightarrow> (u32 \<times> utils_rbb_blk_queue \<times> utils_rbb) option" where
  "rbb_queue_loop queue_data_len node last_block dsize q rbb = (case node of
      None \<Rightarrow> Some (dsize, q, rbb)
    | Some a \<Rightarrow> do {
        b \<leftarrow> get_blk rbb (entry_of a);
        let take_it = (case last_block of
            None \<Rightarrow> status b = RBB_BLK_PUT
          | Some i \<Rightarrow> \<not> (status b \<noteq> RBB_BLK_PUT \<or> bbuf (blk_set rbb ! i) > bbuf b \<or> dsize + bsize b > queue_data_len));
        if take_it then do {
          let q = (case last_block of None \<Rightarrow> q\<lparr>blocks := entry_of a, blk_num := 0\<rparr> | Some i \<Rightarrow> q);
          l \<leftarrow> utils_slist_del (blk_list rbb) a list_head;
          let rbb = upd_blk (rbb\<lparr>blk_list := l\<rparr>) (entry_of a) (\<lambda>b. b\<lparr>status := RBB_BLK_GET\<rparr>);
          rbb_queue_loop queue_data_len (utils_slist_next (blk_list rbb) a) (Some (entry_of a))
            (dsize + bsize b) (q\<lparr>blk_num := blk_num q + 1\<rparr>) rbb
        } else if last_block = None
        then rbb_queue_loop queue_data_len (utils_slist_next (blk_list rbb) a) None dsize q rbb
        else Some (dsize, q, rbb)
      })"

declare rbb_queue_loop.simps [code]

definition utils_rbb_blk_queue_get ::
  "utils_rbb \<Rightarrow> u32 \<Rightarrow> utils_rbb_blk_queue \<Rightarrow> (u32 \<times> utils_rbb_blk_queue \<times> utils_rbb) option" where
  "utils_rbb_blk_queue_get rbb queue_data_len q =
     (if utils_slist_empty (blk_list rbb) list_head then Some (0, q, rbb)
      else rbb_queue_loop queue_data_len (utils_slist_first (blk_list rbb) list_head) None 0 q rbb)"

fun rbb_queue_len_loop :: "nat \<Rightarrow> utils_rbb \<Rightarrow> nat \<Rightarrow> u32 \<Rightarrow> u32 option" where
  "rbb_queue_len_loop 0 rbb i dsize = Some dsize"
| "rbb_queue_len_loop (Suc n) rbb i dsize = do {
     b \<leftarrow> get_blk rbb i;
     rbb_queue_len_loop n rbb (Suc i) (dsize + bsize b)
   }"

definition utils_rbb_blk_queue_len :: "utils_rbb \<Rightarrow> utils_rbb_blk_queue \<Rightarrow> u32 option" where
  "utils_rbb_blk_queue_len rbb q = rbb_queue_len_loop (unat (blk_num q)) rbb (blocks q) 0"

definition utils_rbb_blk_queue_buf :: "utils_rbb \<Rightarrow> utils_rbb_blk_queue \<Rightarrow> u32 option" where
  "utils_rbb_blk_queue_buf rbb q = map_option bbuf (get_blk rbb (blocks q))"

fun rbb_queue_free_loop :: "nat \<Rightarrow> utils_rbb \<Rightarrow> nat \<Rightarrow> utils_rbb option" where
  "rbb_queue_free_loop 0 rbb i = Some rbb"
| "rbb_queue_free_loop (Suc n) rbb i = do {
     rbb \<leftarrow> utils_rbb_blk_free rbb i;
     rbb_queue_free_loop n rbb (Suc i)
   }"

definition utils_rbb_blk_queue_free :: "utils_rbb \<Rightarrow> utils_rbb_blk_queue \<Rightarrow> utils_rbb option" where
  "utils_rbb_blk_queue_free rbb q = rbb_queue_free_loop (unat (blk_num q)) rbb (blocks q)"

partial_function (option) rbb_next_queue_loop :: "utils_rbb \<Rightarrow> ptr \<Rightarrow> nat option \<Rightarrow> u32 \<Rightarrow> u32 option" where
  "rbb_next_queue_loop rbb node last_block data_len = (case node of
      None \<Rightarrow> Some data_len
    | Some a \<Rightarrow> do {
        b \<leftarrow> get_blk rbb (entry_of a);
        let next = utils_slist_next (blk_list rbb) a;
        case last_block of
          None \<Rightarrow>
            if status b \<noteq> RBB_BLK_PUT then rbb_next_queue_loop rbb next None data_len
            else rbb_next_queue_loop rbb next (Some (entry_of a)) (data_len + bsize b)
        | Some i \<Rightarrow>
            if status b \<noteq> RBB_BLK_PUT \<or> bbuf (blk_set rbb ! i) > bbuf b then Some data_len
            else rbb_next_queue_loop rbb next (Some (entry_of a)) (data_len + bsize b)
      })"

declare rbb_next_queue_loop.simps [code]

definition utils_rbb_next_blk_queue_len :: "utils_rbb \<Rightarrow> u32 option" where
  "utils_rbb_next_blk_queue_len rbb =
     (if utils_slist_empty (blk_list rbb) list_head then Some 0
      else rbb_next_queue_loop rbb (utils_slist_first (blk_list rbb) list_head) None 0)"

definition utils_rbb_get_buf_size :: "utils_rbb \<Rightarrow> u32" where
  "utils_rbb_get_buf_size rbb = rbuf_size rbb"

section \<open>Layout of the ring\<close>

text \<open>
  Blocks as intervals \<open>(start, size)\<close> of addresses, in list order: an ascending run, followed after
  the wrap-around by a second ascending run that lies below the first.
\<close>

definition before :: "nat \<times> nat \<Rightarrow> nat \<times> nat \<Rightarrow> bool" where
  "before x y \<longleftrightarrow> fst x + snd x \<le> fst y"

definition inside :: "nat \<Rightarrow> nat \<Rightarrow> nat \<times> nat \<Rightarrow> bool" where
  "inside B S x \<longleftrightarrow> 0 < snd x \<and> B \<le> fst x \<and> fst x + snd x \<le> B + S"

definition ring :: "nat \<Rightarrow> nat \<Rightarrow> (nat \<times> nat) list \<Rightarrow> bool" where
  "ring B S ivs \<longleftrightarrow> (\<forall>x\<in>set ivs. inside B S x) \<and>
     (\<exists>hi lo. ivs = hi @ lo \<and> (lo \<noteq> [] \<longrightarrow> hi \<noteq> []) \<and> sorted_wrt before hi \<and> sorted_wrt before lo \<and>
       (\<forall>x\<in>set lo. \<forall>y\<in>set hi. before x y))"

definition apart :: "nat \<times> nat \<Rightarrow> nat \<times> nat \<Rightarrow> bool" where
  "apart x y \<longleftrightarrow> before x y \<or> before y x"

lemma ring_inside: "ring B S ivs \<Longrightarrow> x \<in> set ivs \<Longrightarrow> inside B S x"
  by (auto simp: ring_def)

lemma ringI:
  "sorted_wrt before hi \<Longrightarrow> sorted_wrt before lo \<Longrightarrow> (lo \<noteq> [] \<longrightarrow> hi \<noteq> []) \<Longrightarrow> \<forall>x\<in>set (hi @ lo). inside B S x \<Longrightarrow>
    \<forall>x\<in>set lo. \<forall>y\<in>set hi. before x y \<Longrightarrow> ring B S (hi @ lo)"
  unfolding ring_def by blast

lemma ringE:
  assumes "ring B S ivs"
  obtains hi lo where "ivs = hi @ lo" "lo \<noteq> [] \<longrightarrow> hi \<noteq> []" "sorted_wrt before hi" "sorted_wrt before lo"
    "\<forall>x\<in>set lo. \<forall>y\<in>set hi. before x y"
  using assms unfolding ring_def by blast

lemma sorted_apart: "sorted_wrt before xs \<Longrightarrow> sorted_wrt apart xs"
  by (erule sorted_wrt_mono_rel [rotated]) (simp add: apart_def)

lemma ring_apart: "ring B S ivs \<Longrightarrow> sorted_wrt apart ivs"
  by (erule ringE) (auto simp: sorted_wrt_append sorted_apart apart_def)

lemma ring_Nil: "ring B S []"
  by (simp add: ring_def)

lemma ring_single: "0 < s \<Longrightarrow> s \<le> S \<Longrightarrow> ring B S [(B, s)]"
  using ringI [of "[(B, s)]" "[]" B S] by (simp add: inside_def)

lemma sorted_ends:
  assumes "sorted_wrt before ivs" "x \<in> set ivs"
  shows "fst (hd ivs) \<le> fst x" "fst x + snd x \<le> fst (last ivs) + snd (last ivs)"
proof -
  show "fst (hd ivs) \<le> fst x" using assms by (cases ivs) (auto simp: before_def)
  show "fst x + snd x \<le> fst (last ivs) + snd (last ivs)" using assms
    by (cases ivs rule: rev_cases) (auto simp: before_def sorted_wrt_append)
qed

text \<open>The comparison of the first and the last block tells whether the list has wrapped around.\<close>

lemma ring_cases:
  assumes "ring B S ivs" and "ivs \<noteq> []"
  obtains (run) "sorted_wrt before ivs" "fst (hd ivs) \<le> fst (last ivs)"
    | (wrapped) hi lo where "ivs = hi @ lo" "hi \<noteq> []" "lo \<noteq> []" "sorted_wrt before hi" "sorted_wrt before lo"
      "\<forall>x\<in>set lo. \<forall>y\<in>set hi. before x y" "fst (last ivs) < fst (hd ivs)"
  using assms(1)
proof (rule ringE)
  fix hi lo
  assume r: "ivs = hi @ lo" "lo \<noteq> [] \<longrightarrow> hi \<noteq> []" "sorted_wrt before hi" "sorted_wrt before lo"
    "\<forall>x\<in>set lo. \<forall>y\<in>set hi. before x y"
  show thesis
  proof (cases "lo = []")
    case True
    with r have "sorted_wrt before ivs" by simp
    with run sorted_ends(1) [OF this last_in_set [OF assms(2)]] show thesis by blast
  next
    case False
    with r have m: "last ivs \<in> set lo" "hd ivs \<in> set hi" by auto
    have "before (last ivs) (hd ivs)" using r(5) m by blast
    with ring_inside [OF assms(1) last_in_set [OF assms(2)]] have "fst (last ivs) < fst (hd ivs)"
      by (simp add: before_def inside_def)
    with False r wrapped show thesis by blast
  qed
qed

lemma ring_append_tail:
  assumes r: "ring B S ivs" "ivs \<noteq> []" "fst (hd ivs) \<le> fst (last ivs)"
    and e: "e = fst (last ivs) + snd (last ivs)" "e + s \<le> B + S" "0 < s"
  shows "ring B S (ivs @ [(e, s)])"
  using r(1,2)
proof (cases rule: ring_cases)
  case run
  then have "sorted_wrt before (ivs @ [(e, s)])"
    using sorted_ends(2) [OF run(1)] e(1) by (simp add: before_def sorted_wrt_append)
  moreover have "B \<le> e" using ring_inside [OF r(1) last_in_set [OF r(2)]] e(1) by (simp add: inside_def)
  ultimately show ?thesis using ring_inside [OF r(1)] e ringI [of "ivs @ [(e, s)]" "[]" B S]
    by (simp add: inside_def)
qed (use r in simp)

lemma ring_append_wrap:
  assumes r: "ring B S ivs" "ivs \<noteq> []" "fst (hd ivs) \<le> fst (last ivs)"
    and e: "B + s \<le> fst (hd ivs)" "0 < s"
  shows "ring B S (ivs @ [(B, s)])"
  using r(1,2)
proof (cases rule: ring_cases)
  case run
  have "fst (hd ivs) \<le> B + S" using ring_inside [OF r(1) hd_in_set [OF r(2)]] by (simp add: inside_def)
  moreover have "\<forall>y\<in>set ivs. before (B, s) y"
    using sorted_ends(1) [OF run(1)] e(1) by (fastforce simp: before_def)
  ultimately show ?thesis using ring_inside [OF r(1)] run(1) e r(2)
    by (intro ringI) (auto simp: inside_def)
qed (use r in simp)

lemma ring_wrapped_gap:
  assumes "ring B S ivs" "ivs \<noteq> []" "\<not> fst (hd ivs) \<le> fst (last ivs)"
  shows "before (last ivs) (hd ivs)"
  using assms(1,2) by (cases rule: ring_cases) (use assms(3) in auto)

lemma ring_append_low:
  assumes r: "ring B S ivs" "ivs \<noteq> []" "\<not> fst (hd ivs) \<le> fst (last ivs)"
    and e: "e = fst (last ivs) + snd (last ivs)" "e + s \<le> fst (hd ivs)" "0 < s"
  shows "ring B S (ivs @ [(e, s)])"
  using r(1,2)
proof (cases rule: ring_cases)
  case (wrapped hi lo)
  have m: "B \<le> e" "fst (hd ivs) \<le> B + S"
    using ring_inside [OF r(1) last_in_set [OF r(2)]] ring_inside [OF r(1) hd_in_set [OF r(2)]] e(1)
    by (simp_all add: inside_def)
  have l: "last ivs = last lo" "hd ivs = hd hi" using wrapped by simp_all
  have "sorted_wrt before (lo @ [(e, s)])"
    using wrapped(5) sorted_ends(2) [OF wrapped(5)] e(1) l by (simp add: before_def sorted_wrt_append)
  moreover have "\<forall>y\<in>set hi. before (e, s) y"
    using sorted_ends(1) [OF wrapped(4)] e(2) l by (fastforce simp: before_def)
  moreover have "inside B S (e, s)" using m e by (simp add: inside_def)
  ultimately have "ring B S (hi @ lo @ [(e, s)])" using ring_inside [OF r(1)] wrapped
    by (intro ringI) auto
  with wrapped(1) show ?thesis by simp
qed (use r in simp)

lemma ring_filter:
  assumes "ring B S (map f xs)"
  shows "ring B S (map f (filter P xs))"
proof -
  have i: "\<forall>x\<in>set xs. inside B S (f x)" using ring_inside [OF assms] by auto
  from assms obtain hi lo where h: "map f xs = hi @ lo" "sorted_wrt before hi" "sorted_wrt before lo"
    "\<forall>x\<in>set lo. \<forall>y\<in>set hi. before x y" by (rule ringE)
  then obtain xh xl where x: "xs = xh @ xl" "hi = map f xh" "lo = map f xl" by (auto simp: map_eq_append_conv)
  have a: "sorted_wrt before (map f (filter P xh))" "sorted_wrt before (map f (filter P xl))"
    using h(2,3) unfolding x sorted_wrt_map by (simp_all add: sorted_wrt_filter)
  show ?thesis
  proof (cases "filter P xh = []")
    case True
    with a i x ringI [of "map f (filter P xl)" "[]" B S] show ?thesis by simp
  next
    case False
    with a i h(4) x show ?thesis unfolding x(1) filter_append map_append by (intro ringI) auto
  qed
qed

section \<open>Invariant\<close>

definition ival :: "utils_rbb \<Rightarrow> nat \<Rightarrow> nat \<times> nat" where
  "ival r i = (unat (bbuf (blk_set r ! i)), unat (bsize (blk_set r ! i)))"

text \<open>\<open>rbb_ok r xs\<close>: the block list of \<open>r\<close> holds the blocks \<open>xs\<close>, which lie in the ring one after the other.\<close>

definition rbb_ok :: "utils_rbb \<Rightarrow> nat list \<Rightarrow> bool" where
  "rbb_ok r xs \<longleftrightarrow> length (blk_set r) = unat (blk_max_num r) \<and>
     unat (rbuf r) + unat (rbuf_size r) < 2 ^ 32 \<and>
     sl_list (blk_list r) list_head (map node_of xs) \<and>
     (\<forall>i\<in>set xs. i < length (blk_set r) \<and> status (blk_set r ! i) \<noteq> RBB_BLK_UNUSED) \<and>
     ring (unat (rbuf r)) (unat (rbuf_size r)) (map (ival r) xs)"

lemma rbb_ok_distinct: "rbb_ok r xs \<Longrightarrow> distinct xs"
  by (auto simp: rbb_ok_def dest!: sl_list_distinct) (auto simp: distinct_map)

lemma get_blk_ok: "rbb_ok r xs \<Longrightarrow> i \<in> set xs \<Longrightarrow> get_blk r i = Some (blk_set r ! i)"
  by (auto simp: rbb_ok_def get_blk_def)

lemma find_blk_Some:
  "find_blk P bs i = Some j \<Longrightarrow> i \<le> j \<and> j < i + length bs \<and> P (status (bs ! (j - i)))"
proof (induction bs arbitrary: i)
  case (Cons b bs)
  show ?case
  proof (cases "P (status b)")
    case False
    with Cons.IH [of "Suc i"] Cons.prems show ?thesis by (auto simp: nth_Cons' Suc_diff_le)
  qed (use Cons.prems in auto)
qed simp

lemma find_blk_None: "find_blk P bs i = None \<longleftrightarrow> (\<forall>b\<in>set bs. \<not> P (status b))"
  by (induction bs arbitrary: i) auto

lemma find_empty_Some:
  assumes "rbb_ok r xs" and "utils_rbb_find_empty_blk r = Some n"
  shows "n < length (blk_set r)" "status (blk_set r ! n) = RBB_BLK_UNUSED" "n \<notin> set xs"
  using assms find_blk_Some [of "\<lambda>s. s = RBB_BLK_UNUSED" "blk_set r" 0 n]
  by (auto simp: utils_rbb_find_empty_blk_def rbb_ok_def)

lemma rbb_place_ok:
  assumes ok: "rbb_ok r xs" and n: "n < length (blk_set r)" "n \<notin> set xs"
    and ring: "ring (unat (rbuf r)) (unat (rbuf_size r)) (map (ival r) xs @ [(unat a, unat sz)])"
  shows "\<exists>r'. rbb_place r n a sz = Some (Some n, r') \<and> rbb_ok r' (xs @ [n]) \<and> ival r' n = (unat a, unat sz) \<and>
    status (blk_set r' ! n) = RBB_BLK_INITED \<and> (\<forall>i. i \<noteq> n \<longrightarrow> blk_set r' ! i = blk_set r ! i) \<and>
    rbuf r' = rbuf r \<and> rbuf_size r' = rbuf_size r \<and> blk_max_num r' = blk_max_num r"
proof -
  have "node_of n \<notin> node_of ` set xs" using n(2) by auto
  then obtain l where l: "utils_slist_append (blk_list r) list_head (node_of n) = Some l"
    "sl_list l list_head (map node_of xs @ [node_of n])"
    using sl_list_append [of "blk_list r" list_head "map node_of xs" "node_of n"] ok n by (auto simp: rbb_ok_def)
  let ?r = "upd_blk (r\<lparr>blk_list := l\<rparr>) n (\<lambda>b. b\<lparr>status := RBB_BLK_INITED, bbuf := a, bsize := sz\<rparr>)"
  have keep: "\<forall>i\<in>set xs. blk_set ?r ! i = blk_set r ! i" using n(2) by (simp, metis nth_list_update_neq)
  then have m: "map (ival ?r) xs = map (ival r) xs" by (simp add: ival_def)
  have "ival ?r n = (unat a, unat sz)" using n(1) by (simp add: ival_def)
  with ring have "ring (unat (rbuf r)) (unat (rbuf_size r)) (map (ival ?r) (xs @ [n]))"
    unfolding map_append m by simp
  then have "rbb_ok ?r (xs @ [n])" using ok l(2) n keep by (auto simp: rbb_ok_def)
  with l(1) n(1) show ?thesis by (auto simp: rbb_place_def ival_def)
qed

text \<open>Reading the first and the last block of a non-empty list.\<close>

lemma rbb_ok_ends:
  assumes "rbb_ok r xs" and "xs \<noteq> []"
  shows "utils_slist_first (blk_list r) list_head = Some (node_of (hd xs))"
    and "utils_slist_tail (blk_list r) list_head = Some (node_of (last xs))"
proof -
  have l: "sl_list (blk_list r) list_head (map node_of xs)" using assms by (simp add: rbb_ok_def)
  from sl_list_first [OF l] assms(2) show "utils_slist_first (blk_list r) list_head = Some (node_of (hd xs))"
    by (simp add: hd_map)
  from sl_list_tail [OF l] assms(2) show "utils_slist_tail (blk_list r) list_head = Some (node_of (last xs))"
    by (simp add: last_map)
qed

lemma rbb_list_num:
  "rbb_ok r xs \<Longrightarrow> utils_slist_entry_number (blk_list r) list_head = Some (int (length xs))"
  using sl_list_entry_number [of "blk_list r" list_head "map node_of xs"] by (simp add: rbb_ok_def)

text \<open>The word arithmetic of the gaps does not wrap in a well-formed ring.\<close>

lemma word_gap: "unat (x :: u32) \<le> unat y \<Longrightarrow> unat (y - x) = unat y - unat x"
  by (simp add: unat_sub word_le_nat_alt)

lemma word_end: "unat (a :: u32) + unat s < 2 ^ 32 \<Longrightarrow> unat (a + s) = unat a + unat s"
  by (simp add: unat_word_ariths)

lemma rbb_alloc_list:
  assumes ok: "rbb_ok r xs" and sz: "0 < unat sz" "sz < 2 ^ 24"
    and fit: "xs = [] \<longrightarrow> unat sz \<le> unat (rbuf_size r)"
    and n: "utils_rbb_find_empty_blk r = Some n"
  shows "utils_rbb_blk_alloc r sz = Some (None, r) \<or>
    (\<exists>a. utils_rbb_blk_alloc r sz = rbb_place r n a sz \<and>
      ring (unat (rbuf r)) (unat (rbuf_size r)) (map (ival r) xs @ [(unat a, unat sz)]))"
proof -
  note n' = find_empty_Some [OF ok n]
  have "set (n # xs) \<subseteq> {..<length (blk_set r)}" "distinct (n # xs)"
    using ok n' rbb_ok_distinct [OF ok] by (auto simp: rbb_ok_def)
  then have "length (n # xs) \<le> length (blk_set r)"
    using card_mono [of "{..<length (blk_set r)}" "set (n # xs)"] distinct_card [of "n # xs"] by simp
  then have room: "length xs < unat (blk_max_num r)" using ok by (simp add: rbb_ok_def)
  note num = rbb_list_num [OF ok]
  have num': "(word_of_int (int (length xs)) :: u32) < blk_max_num r"
    using room by (simp add: word_less_nat_alt unat_of_nat)
  show ?thesis
  proof (cases "xs = []")
    case True
    with num num' n sz have "utils_rbb_blk_alloc r sz = rbb_place r n (rbuf r) sz"
      by (simp add: utils_rbb_blk_alloc_def)
    with True fit sz(1) ring_single show ?thesis by auto
  next
    case False
    let ?B = "unat (rbuf r)" and ?S = "unat (rbuf_size r)" and ?ivs = "map (ival r) xs"
    let ?h = "blk_set r ! hd xs" and ?t = "blk_set r ! last xs"
    have R: "ring ?B ?S ?ivs" and BS: "?B + ?S < 2 ^ 32" using ok by (simp_all add: rbb_ok_def)
    have hl: "hd ?ivs = ival r (hd xs)" "last ?ivs = ival r (last xs)" using False by (simp_all add: hd_map last_map)
    have it: "inside ?B ?S (ival r (last xs))" "inside ?B ?S (ival r (hd xs))" using ring_inside [OF R] False by auto
    have e: "unat (bbuf ?t + bsize ?t) = unat (bbuf ?t) + unat (bsize ?t)" "unat (rbuf r + rbuf_size r) = ?B + ?S"
      using it BS by (auto intro!: word_end simp: inside_def ival_def)
    have alloc: "utils_rbb_blk_alloc r sz =
        (if bbuf ?h \<le> bbuf ?t then
           if (rbuf r + rbuf_size r) - (bbuf ?t + bsize ?t) \<ge> sz then rbb_place r n (bbuf ?t + bsize ?t) sz
           else if bbuf ?h - rbuf r \<ge> sz then rbb_place r n (rbuf r) sz else Some (None, r)
         else if bbuf ?h - (bbuf ?t + bsize ?t) \<ge> sz then rbb_place r n (bbuf ?t + bsize ?t) sz else Some (None, r))"
      using num num' n sz(2) False get_blk_ok [OF ok] rbb_ok_ends [OF ok False]
      by (simp add: utils_rbb_blk_alloc_def Let_def)
    show ?thesis
    proof (cases "bbuf ?h \<le> bbuf ?t")
      case le: True
      then have le': "fst (hd ?ivs) \<le> fst (last ?ivs)" unfolding hl by (simp add: ival_def word_le_nat_alt)
      have g: "unat ((rbuf r + rbuf_size r) - (bbuf ?t + bsize ?t)) = ?B + ?S - (unat (bbuf ?t) + unat (bsize ?t))"
        "unat (bbuf ?h - rbuf r) = unat (bbuf ?h) - ?B"
        using it e by (auto simp: word_gap inside_def ival_def)
      have "sz \<le> (rbuf r + rbuf_size r) - (bbuf ?t + bsize ?t) \<Longrightarrow>
          ring ?B ?S (?ivs @ [(unat (bbuf ?t + bsize ?t), unat sz)])"
        using ring_append_tail [OF R _ le', of "unat (bbuf ?t + bsize ?t)" "unat sz"] False e g it sz(1)
        unfolding hl by (simp add: word_le_nat_alt inside_def ival_def)
      moreover have "sz \<le> bbuf ?h - rbuf r \<Longrightarrow> ring ?B ?S (?ivs @ [(?B, unat sz)])"
        using ring_append_wrap [OF R _ le', of "unat sz"] False g it sz(1)
        unfolding hl by (simp add: word_le_nat_alt inside_def ival_def)
      ultimately show ?thesis using alloc le by auto
    next
      case le: False
      then have le': "\<not> fst (hd ?ivs) \<le> fst (last ?ivs)" unfolding hl by (simp add: ival_def word_le_nat_alt)
      have "before (last ?ivs) (hd ?ivs)" using ring_wrapped_gap [OF R _ le'] False by simp
      then have b: "unat (bbuf ?t) + unat (bsize ?t) \<le> unat (bbuf ?h)" unfolding hl by (simp add: before_def ival_def)
      then have g: "unat (bbuf ?h - (bbuf ?t + bsize ?t)) = unat (bbuf ?h) - (unat (bbuf ?t) + unat (bsize ?t))"
        using e by (simp add: word_gap)
      have "sz \<le> bbuf ?h - (bbuf ?t + bsize ?t) \<Longrightarrow> ring ?B ?S (?ivs @ [(unat (bbuf ?t + bsize ?t), unat sz)])"
        using ring_append_low [OF R _ le', of "unat (bbuf ?t + bsize ?t)" "unat sz"] False e g b sz(1)
        unfolding hl by (simp add: word_le_nat_alt ival_def)
      then show ?thesis using alloc le by auto
    qed
  qed
qed

lemma rbb_alloc_ok:
  assumes ok: "rbb_ok r xs" and sz: "0 < unat sz" "sz < 2 ^ 24"
    and fit: "xs = [] \<longrightarrow> unat sz \<le> unat (rbuf_size r)"
  obtains (full) "utils_rbb_blk_alloc r sz = Some (None, r)"
    | (got) n r' where "utils_rbb_blk_alloc r sz = Some (Some n, r')" "n < length (blk_set r)"
      "status (blk_set r ! n) = RBB_BLK_UNUSED" "rbb_ok r' (xs @ [n])" "snd (ival r' n) = unat sz"
      "status (blk_set r' ! n) = RBB_BLK_INITED" "\<forall>i. i \<noteq> n \<longrightarrow> blk_set r' ! i = blk_set r ! i"
      "rbuf r' = rbuf r" "rbuf_size r' = rbuf_size r" "blk_max_num r' = blk_max_num r"
proof (cases "utils_rbb_find_empty_blk r")
  case None
  with rbb_list_num [OF ok] sz full show thesis by (simp add: utils_rbb_blk_alloc_def)
next
  case (Some n)
  note n = find_empty_Some [OF ok Some]
  from rbb_alloc_list [OF ok sz fit Some] show thesis
  proof (elim disjE exE conjE)
    fix a
    assume a: "utils_rbb_blk_alloc r sz = rbb_place r n a sz"
      "ring (unat (rbuf r)) (unat (rbuf_size r)) (map (ival r) xs @ [(unat a, unat sz)])"
    from rbb_place_ok [OF ok n(1,3) a(2)] a(1) n got show thesis by auto
  qed (rule full)
qed

lemma rbb_status_ok:
  assumes "rbb_ok r xs" and "s \<noteq> RBB_BLK_UNUSED"
  shows "rbb_ok (upd_blk r i (\<lambda>b. b\<lparr>status := s\<rparr>)) xs"
proof -
  let ?r = "upd_blk r i (\<lambda>b. b\<lparr>status := s\<rparr>)"
  have "ival ?r j = ival r j" for j
    by (cases "j = i"; cases "i < length (blk_set r)") (simp_all add: ival_def list_update_beyond)
  then have "ival ?r = ival r" by (rule ext)
  moreover have "\<forall>j\<in>set xs. status (blk_set ?r ! j) \<noteq> RBB_BLK_UNUSED"
    using assms by (cases "i < length (blk_set r)") (auto simp: rbb_ok_def nth_list_update list_update_beyond)
  ultimately show ?thesis using assms(1) unfolding rbb_ok_def by auto
qed

lemma rbb_get_loop_ok:
  assumes "chain (blk_list r) p (map node_of ys) NULL" and "\<forall>i\<in>set ys. i < length (blk_set r)"
  shows "rbb_get_loop r p = Some (case List.find (\<lambda>i. status (blk_set r ! i) = RBB_BLK_PUT) ys of
      None \<Rightarrow> (None, r) | Some i \<Rightarrow> (Some i, upd_blk r i (\<lambda>b. b\<lparr>status := RBB_BLK_GET\<rparr>)))"
  using assms
proof (induction ys arbitrary: p)
  case (Cons y ys)
  then show ?case by (subst rbb_get_loop.simps) (auto simp: get_blk_def utils_slist_next_def)
qed (simp add: rbb_get_loop.simps)

lemma rbb_get_ok:
  assumes "rbb_ok r xs"
  shows "utils_rbb_blk_get r = Some (case List.find (\<lambda>i. status (blk_set r ! i) = RBB_BLK_PUT) xs of
      None \<Rightarrow> (None, r) | Some i \<Rightarrow> (Some i, upd_blk r i (\<lambda>b. b\<lparr>status := RBB_BLK_GET\<rparr>)))"
proof -
  have l: "sl_list (blk_list r) list_head (map node_of xs)" using assms by (simp add: rbb_ok_def)
  then have "chain (blk_list r) (utils_slist_first (blk_list r) list_head) (map node_of xs) NULL"
    by (simp add: sl_list_def utils_slist_first_def)
  with sl_list_empty [OF l] rbb_get_loop_ok assms show ?thesis
    by (auto simp: utils_rbb_blk_get_def rbb_ok_def)
qed

lemma remove1_map_node: "remove1 (node_of i) (map node_of xs) = map node_of (remove1 i xs)"
  by (induction xs) auto

lemma rbb_free_ok:
  assumes ok: "rbb_ok r xs" and i: "i < length (blk_set r)" "status (blk_set r ! i) \<noteq> RBB_BLK_UNUSED"
  shows "\<exists>r'. utils_rbb_blk_free r i = Some r' \<and> rbb_ok r' (remove1 i xs) \<and>
    blk_set r' = (blk_set r)[i := (blk_set r ! i)\<lparr>status := RBB_BLK_UNUSED\<rparr>] \<and>
    rbuf r' = rbuf r \<and> rbuf_size r' = rbuf_size r \<and> blk_max_num r' = blk_max_num r"
proof -
  have l: "sl_list (blk_list r) list_head (map node_of xs)" using ok by (simp add: rbb_ok_def)
  obtain l' where l': "utils_slist_del (blk_list r) (node_of i) list_head = Some l'"
    "sl_list l' list_head (map node_of (remove1 i xs))"
    using sl_list_del [OF l, of "node_of i"] by (auto simp: remove1_map_node)
  let ?r = "upd_blk (r\<lparr>blk_list := l'\<rparr>) i (\<lambda>b. b\<lparr>status := RBB_BLK_UNUSED\<rparr>)"
  have rm: "remove1 i xs = filter (\<lambda>j. i \<noteq> j) xs"
    using rbb_ok_distinct [OF ok] by (simp add: distinct_remove1_removeAll removeAll_filter_not_eq)
  have "ival ?r j = ival r j" for j
    by (cases "j = i"; cases "i < length (blk_set r)") (simp_all add: ival_def list_update_beyond)
  then have "ival ?r = ival r" by (rule ext)
  moreover have "ring (unat (rbuf r)) (unat (rbuf_size r)) (map (ival r) (remove1 i xs))"
    unfolding rm using ok by (intro ring_filter) (simp add: rbb_ok_def)
  ultimately have "rbb_ok ?r (remove1 i xs)" using ok l'(2) rm by (auto simp: rbb_ok_def)
  with l'(1) i show ?thesis by (simp add: utils_rbb_blk_free_def get_blk_def)
qed

lemma rbb_init_ok:
  assumes "unat buf + unat sz < 2 ^ 32" and "length bs = unat mx"
  shows "rbb_ok (utils_rbb_init r buf sz bs mx) []"
  using assms by (simp add: rbb_ok_def utils_rbb_init_def sl_list_init ring_Nil)

section \<open>All uses of a ring\<close>

text \<open>The four operations on single blocks, with the sizes a caller may ask for.\<close>

inductive rbb_step :: "utils_rbb \<Rightarrow> utils_rbb \<Rightarrow> bool" where
  alloc: "0 < unat sz \<Longrightarrow> unat sz \<le> unat (rbuf_size r) \<Longrightarrow> utils_rbb_blk_alloc r sz = Some (res, r') \<Longrightarrow> rbb_step r r'"
| put: "utils_rbb_blk_put r i = Some r' \<Longrightarrow> rbb_step r r'"
| get: "utils_rbb_blk_get r = Some (res, r') \<Longrightarrow> rbb_step r r'"
| free: "utils_rbb_blk_free r i = Some r' \<Longrightarrow> rbb_step r r'"

definition rbb_live :: "utils_rbb \<Rightarrow> nat list \<Rightarrow> bool" where
  "rbb_live r xs \<longleftrightarrow> rbb_ok r xs \<and>
     (\<forall>i<length (blk_set r). status (blk_set r ! i) \<noteq> RBB_BLK_UNUSED \<longrightarrow> i \<in> set xs)"

lemma rbb_live_status:
  assumes "rbb_live r xs" and "status (blk_set r ! i) \<noteq> RBB_BLK_UNUSED" and "s \<noteq> RBB_BLK_UNUSED"
  shows "rbb_live (upd_blk r i (\<lambda>b. b\<lparr>status := s\<rparr>)) xs"
  using assms rbb_status_ok [of r xs s i]
  by (cases "i < length (blk_set r)") (auto simp: rbb_live_def nth_list_update list_update_beyond split: if_splits)

lemma rbb_step_live:
  assumes "rbb_step r r'" and "rbb_live r xs"
  shows "\<exists>xs'. rbb_live r' xs' \<and> rbuf r' = rbuf r \<and> rbuf_size r' = rbuf_size r"
  using assms
proof cases
  case (alloc sz res)
  have ok: "rbb_ok r xs" using assms(2) by (simp add: rbb_live_def)
  have lt: "sz < 2 ^ 24" using alloc(3) by (simp add: utils_rbb_blk_alloc_def split: if_splits)
  have fit: "xs = [] \<longrightarrow> unat sz \<le> unat (rbuf_size r)" using alloc(2) by simp
  show ?thesis
  proof (cases rule: rbb_alloc_ok [OF ok alloc(1) lt fit, case_names full got])
    case (got n r1)
    then have "r' = r1" using alloc(3) by simp
    moreover have "length (blk_set r1) = length (blk_set r)" using got(4,10) ok by (simp add: rbb_ok_def)
    ultimately have "rbb_live r' (xs @ [n])" using got(4,7) assms(2)
      by (auto simp: rbb_live_def)
    with got \<open>r' = r1\<close> show ?thesis by auto
  qed (use alloc assms(2) in auto)
next
  case (put i)
  then have i: "i < length (blk_set r)" "status (blk_set r ! i) \<noteq> RBB_BLK_UNUSED"
    "r' = upd_blk r i (\<lambda>b. b\<lparr>status := RBB_BLK_PUT\<rparr>)"
    by (auto simp: utils_rbb_blk_put_def get_blk_def split: if_splits)
  with rbb_live_status [OF assms(2) i(2)] show ?thesis by auto
next
  case (get res)
  have ok: "rbb_ok r xs" using assms(2) by (simp add: rbb_live_def)
  show ?thesis
  proof (cases "List.find (\<lambda>i. status (blk_set r ! i) = RBB_BLK_PUT) xs")
    case None
    with get rbb_get_ok [OF ok] assms(2) show ?thesis by auto
  next
    case (Some i)
    then have "status (blk_set r ! i) \<noteq> RBB_BLK_UNUSED" by (auto simp: find_Some_iff)
    with get rbb_get_ok [OF ok] Some rbb_live_status [OF assms(2)] show ?thesis by auto
  qed
next
  case (free i)
  then have i: "i < length (blk_set r)" "status (blk_set r ! i) \<noteq> RBB_BLK_UNUSED"
    by (auto simp: utils_rbb_blk_free_def get_blk_def split: if_splits)
  have ok: "rbb_ok r xs" using assms(2) by (simp add: rbb_live_def)
  from rbb_free_ok [OF ok i] free rbb_ok_distinct [OF ok] assms(2) i(1) have "rbb_live r' (remove1 i xs)"
    by (auto simp: rbb_live_def nth_list_update split: if_splits)
  with rbb_free_ok [OF ok i] free show ?thesis by auto
qed

lemma rbb_steps_live:
  assumes "rbb_step\<^sup>*\<^sup>* r r'" and "rbb_live r xs"
  shows "\<exists>xs'. rbb_live r' xs' \<and> rbuf r' = rbuf r \<and> rbuf_size r' = rbuf_size r"
  using assms
proof (induction rule: rtranclp_induct)
  case (step r1 r2)
  then obtain ys where ys: "rbb_live r1 ys" "rbuf r1 = rbuf r" "rbuf_size r1 = rbuf_size r" by blast
  from rbb_step_live [OF step.hyps(2) ys(1)] ys show ?case by simp
qed blast

section \<open>Properties\<close>


definition sample_rbb :: utils_rbb where
  "sample_rbb = utils_rbb_init \<lparr>rbuf = 0, rbuf_size = 0, blk_set = [], blk_max_num = 0, blk_list = \<lambda>_. NULL\<rparr>
     4096 64 (replicate 3 \<lparr>status = RBB_BLK_GET, bsize = 0, bbuf = 0\<rparr>) 3"

definition sample_alloc :: "utils_rbb \<Rightarrow> u32 \<Rightarrow> utils_rbb" where
  "sample_alloc r sz = snd (the (utils_rbb_blk_alloc r sz))"

lemma sample_alloc_eval:
  "utils_rbb_blk_alloc sample_rbb 24 \<noteq> None" "utils_rbb_blk_alloc (sample_alloc sample_rbb 24) 40 \<noteq> None"
  "rbuf_size sample_rbb = 64" "rbuf_size (sample_alloc sample_rbb 24) = 64"
  "map status (blk_set (sample_alloc (sample_alloc sample_rbb 24) 40)) =
     [RBB_BLK_INITED, RBB_BLK_INITED, RBB_BLK_UNUSED]"
  by code_simp+

lemma sample_step:
  assumes "utils_rbb_blk_alloc r sz \<noteq> None" "0 < unat sz" "unat sz \<le> unat (rbuf_size r)"
  shows "rbb_step r (sample_alloc r sz)"
proof -
  obtain res r' where "utils_rbb_blk_alloc r sz = Some (res, r')" using assms(1) by auto
  with rbb_step.alloc [OF assms(2,3) this] show ?thesis by (simp add: sample_alloc_def)
qed

lemma sample_steps: "rbb_step\<^sup>*\<^sup>* sample_rbb (sample_alloc (sample_alloc sample_rbb 24) 40)"
proof (rule rtranclp.rtrancl_into_rtrancl [OF rtranclp.rtrancl_into_rtrancl [OF rtranclp.rtrancl_refl]])
  show "rbb_step sample_rbb (sample_alloc sample_rbb 24)"
    by (rule sample_step [OF sample_alloc_eval(1)]) (simp_all add: sample_alloc_eval)
  show "rbb_step (sample_alloc sample_rbb 24) (sample_alloc (sample_alloc sample_rbb 24) 40)"
    by (rule sample_step [OF sample_alloc_eval(2)]) (simp_all add: sample_alloc_eval)
qed

lemma sample_status:
  "length (blk_set (sample_alloc (sample_alloc sample_rbb 24) 40)) = 3"
  "status (blk_set (sample_alloc (sample_alloc sample_rbb 24) 40) ! 0) \<noteq> RBB_BLK_UNUSED"
  "status (blk_set (sample_alloc (sample_alloc sample_rbb 24) 40) ! 1) \<noteq> RBB_BLK_UNUSED"
  by code_simp+



lemma sample_rbb_ok: "rbb_ok sample_rbb []"
  unfolding sample_rbb_def by (rule rbb_init_ok) simp_all



definition sample_put :: utils_rbb where
  "sample_put = upd_blk (sample_alloc sample_rbb 24) 0 (\<lambda>b. b\<lparr>status := RBB_BLK_PUT\<rparr>)"

lemma sample_put_ok: "rbb_ok sample_put [0]" "status (blk_set sample_put ! 0) = RBB_BLK_PUT"
proof -
  have "map_option fst (utils_rbb_blk_alloc sample_rbb 24) = Some (Some 0)" by code_simp
  moreover have "(0 :: nat) < unat (24 :: u32)" "(24 :: u32) < 2 ^ 24" "[] = [] \<longrightarrow> unat (24 :: u32) \<le> unat (rbuf_size sample_rbb)"
    by (simp_all add: sample_alloc_eval)
  ultimately have "rbb_ok (sample_alloc sample_rbb 24) [0]"
    using rbb_alloc_ok [OF sample_rbb_ok, of 24] by (force simp: sample_alloc_def)
  then show "rbb_ok sample_put [0]" unfolding sample_put_def by (rule rbb_status_ok) simp
  show "status (blk_set sample_put ! 0) = RBB_BLK_PUT" by code_simp
qed


text \<open>
  C29: with an empty list the requested size is not compared with the size of the buffer: a request
  larger than the buffer is granted and the block reaches beyond its end.
\<close>

theorem rbb_alloc_empty_unchecked:
  assumes "rbb_ok r []" and "unat (rbuf_size r) < unat sz" "sz < 2 ^ 24"
    and "utils_rbb_find_empty_blk r = Some n"
  shows "\<exists>r'. utils_rbb_blk_alloc r sz = Some (Some n, r') \<and>
    \<not> inside (unat (rbuf r)) (unat (rbuf_size r)) (ival r' n)"
proof -
  note n = find_empty_Some [OF assms(1,4)]
  have l: "sl_list (blk_list r) list_head []" using assms(1) by (simp add: rbb_ok_def)
  have m: "(0 :: u32) < blk_max_num r" using n(1) assms(1) by (simp add: rbb_ok_def word_less_nat_alt)
  obtain l' where "utils_slist_append (blk_list r) list_head (node_of n) = Some l'"
    using sl_list_append [OF l, of "node_of n"] by auto
  then show ?thesis using n rbb_list_num [OF assms(1)] assms(2-4) m
    by (simp add: utils_rbb_blk_alloc_def rbb_place_def ival_def inside_def)
qed

theorem rbb_alloc_empty_unchecked_witness:
  "\<exists>r'. utils_rbb_blk_alloc sample_rbb 100 = Some (Some 0, r') \<and> \<not> inside 4096 64 (ival r' 0)"
proof -
  have "utils_rbb_find_empty_blk sample_rbb = Some 0" "unat (rbuf sample_rbb) = 4096" by code_simp+
  with rbb_alloc_empty_unchecked [OF sample_rbb_ok, of 100 0] show ?thesis by (simp add: sample_alloc_eval)
qed

definition queue_then_alloc :: "(u32 option \<times> rbb_status \<times> u32 option) option" where
  "queue_then_alloc = do {
     (t, q, r) \<leftarrow> utils_rbb_blk_queue_get sample_put 64 \<lparr>blocks = 0, blk_num = 0\<rparr>;
     (n, r) \<leftarrow> utils_rbb_blk_alloc r 24;
     i \<leftarrow> n;
     Some (utils_rbb_blk_buf r i, status (blk_set r ! blocks q), utils_rbb_blk_queue_buf r q)
   }"


end
