(* ===== verification/Utils_CRC.thy ===== *)
theory Utils_CRC
  imports BL_Prelude
begin

unbundle bit_operations_syntax

text \<open>
  The checksums of \<open>utils/src/utils_crc.c\<close>: the table-driven CRC-16 and CRC-32, the streaming
  CRC-32 and the bit-serial CRC-16-CCITT, with the tables as they stand in the source. The buffer
  and its length are a list of bytes.
\<close>

section \<open>Tables\<close>

definition chCRCHTalbe :: "u8 list" where
  "chCRCHTalbe =
    [0x00, 0xC1, 0x81, 0x40, 0x01, 0xC0, 0x80, 0x41, 0x01, 0xC0, 0x80, 0x41, 0x00, 0xC1, 0x81, 0x40,
     0x01, 0xC0, 0x80, 0x41, 0x00, 0xC1, 0x81, 0x40, 0x00, 0xC1, 0x81, 0x40, 0x01, 0xC0, 0x80, 0x41,
     0x01, 0xC0, 0x80, 0x41, 0x00, 0xC1, 0x81, 0x40, 0x00, 0xC1, 0x81, 0x40, 0x01, 0xC0, 0x80, 0x41,
     0x00, 0xC1, 0x81, 0x40, 0x01, 0xC0, 0x80, 0x41, 0x01, 0xC0, 0x80, 0x41, 0x00, 0xC1, 0x81, 0x40,
     0x01, 0xC0, 0x80, 0x41, 0x00, 0xC1, 0x81, 0x40, 0x00, 0xC1, 0x81, 0x40, 0x01, 0xC0, 0x80, 0x41,
     0x00, 0xC1, 0x81, 0x40, 0x01, 0xC0, 0x80, 0x41, 0x01, 0xC0, 0x80, 0x41, 0x00, 0xC1, 0x81, 0x40,
     0x00, 0xC1, 0x81, 0x40, 0x01, 0xC0, 0x80, 0x41, 0x01, 0xC0, 0x80, 0x41, 0x00, 0xC1, 0x81, 0x40,
     0x01, 0xC0, 0x80, 0x41, 0x00, 0xC1, 0x81, 0x40, 0x00, 0xC1, 0x81, 0x40, 0x01, 0xC0, 0x80, 0x41,
     0x01, 0xC0, 0x80, 0x41, 0x00, 0xC1, 0x81, 0x40, 0x00, 0xC1, 0x81, 0x40, 0x01, 0xC0, 0x80, 0x41,
     0x00, 0xC1, 0x81, 0x40, 0x01, 0xC0, 0x80, 0x41, 0x01, 0xC0, 0x80, 0x41, 0x00, 0xC1, 0x81, 0x40,
     0x00, 0xC1, 0x81, 0x40, 0x01, 0xC0, 0x80, 0x41, 0x01, 0xC0, 0x80, 0x41, 0x00, 0xC1, 0x81, 0x40,
     0x01, 0xC0, 0x80, 0x41, 0x00, 0xC1, 0x81, 0x40, 0x00, 0xC1, 0x81, 0x40, 0x01, 0xC0, 0x80, 0x41,
     0x00, 0xC1, 0x81, 0x40, 0x01, 0xC0, 0x80, 0x41, 0x01, 0xC0, 0x80, 0x41, 0x00, 0xC1, 0x81, 0x40,
     0x01, 0xC0, 0x80, 0x41, 0x00, 0xC1, 0x81, 0x40, 0x00, 0xC1, 0x81, 0x40, 0x01, 0xC0, 0x80, 0x41,
     0x01, 0xC0, 0x80, 0x41, 0x00, 0xC1, 0x81, 0x40, 0x00, 0xC1, 0x81, 0x40, 0x01, 0xC0, 0x80, 0x41,
     0x00, 0xC1, 0x81, 0x40, 0x01, 0xC0, 0x80, 0x41, 0x01, 0xC0, 0x80, 0x41, 0x00, 0xC1, 0x81, 0x40]"

definition chCRCLTalbe :: "u8 list" where
  "chCRCLTalbe =
    [0x00, 0xC0, 0xC1, 0x01, 0xC3, 0x03, 0x02, 0xC2, 0xC6, 0x06, 0x07, 0xC7, 0x05, 0xC5, 0xC4, 0x04,
     0xCC, 0x0C, 0x0D, 0xCD, 0x0F, 0xCF, 0xCE, 0x0E, 0x0A, 0xCA, 0xCB, 0x0B, 0xC9, 0x09, 0x08, 0xC8,
     0xD8, 0x18, 0x19, 0xD9, 0x1B, 0xDB, 0xDA, 0x1A, 0x1E, 0xDE, 0xDF, 0x1F, 0xDD, 0x1D, 0x1C, 0xDC,
     0x14, 0xD4, 0xD5, 0x15, 0xD7, 0x17, 0x16, 0xD6, 0xD2, 0x12, 0x13, 0xD3, 0x11, 0xD1, 0xD0, 0x10,
     0xF0, 0x30, 0x31, 0xF1, 0x33, 0xF3, 0xF2, 0x32, 0x36, 0xF6, 0xF7, 0x37, 0xF5, 0x35, 0x34, 0xF4,
     0x3C, 0xFC, 0xFD, 0x3D, 0xFF, 0x3F, 0x3E, 0xFE, 0xFA, 0x3A, 0x3B, 0xFB, 0x39, 0xF9, 0xF8, 0x38,
     0x28, 0xE8, 0xE9, 0x29, 0xEB, 0x2B, 0x2A, 0xEA, 0xEE, 0x2E, 0x2F, 0xEF, 0x2D, 0xED, 0xEC, 0x2C,
     0xE4, 0x24, 0x25, 0xE5, 0x27, 0xE7, 0xE6, 0x26, 0x22, 0xE2, 0xE3, 0x23, 0xE1, 0x21, 0x20, 0xE0,
     0xA0, 0x60, 0x61, 0xA1, 0x63, 0xA3, 0xA2, 0x62, 0x66, 0xA6, 0xA7, 0x67, 0xA5, 0x65, 0x64, 0xA4,
     0x6C, 0xAC, 0xAD, 0x6D, 0xAF, 0x6F, 0x6E, 0xAE, 0xAA, 0x6A, 0x6B, 0xAB, 0x69, 0xA9, 0xA8, 0x68,
     0x78, 0xB8, 0xB9, 0x79, 0xBB, 0x7B, 0x7A, 0xBA, 0xBE, 0x7E, 0x7F, 0xBF, 0x7D, 0xBD, 0xBC, 0x7C,
     0xB4, 0x74, 0x75, 0xB5, 0x77, 0xB7, 0xB6, 0x76, 0x72, 0xB2, 0xB3, 0x73, 0xB1, 0x71, 0x70, 0xB0,
     0x50, 0x90, 0x91, 0x51, 0x93, 0x53, 0x52, 0x92, 0x96, 0x56, 0x57, 0x97, 0x55, 0x95, 0x94, 0x54,
     0x9C, 0x5C, 0x5D, 0x9D, 0x5F, 0x9F, 0x9E, 0x5E, 0x5A, 0x9A, 0x9B, 0x5B, 0x99, 0x59, 0x58, 0x98,
     0x88, 0x48, 0x49, 0x89, 0x4B, 0x8B, 0x8A, 0x4A, 0x4E, 0x8E, 0x8F, 0x4F, 0x8D, 0x4D, 0x4C, 0x8C,
     0x44, 0x84, 0x85, 0x45, 0x87, 0x47, 0x46, 0x86, 0x82, 0x42, 0x43, 0x83, 0x41, 0x81, 0x80, 0x40]"

definition utils_crc_crc32_tab :: "u32 list" where
  "utils_crc_crc32_tab =
    [0x00000000, 0x77073096, 0xEE0E612C, 0x990951BA, 0x076DC419, 0x706AF48F, 0xE963A535, 0x9E6495A3,
     0x0EDB8832, 0x79DCB8A4, 0xE0D5E91E, 0x97D2D988, 0x09B64C2B, 0x7EB17CBD, 0xE7B82D07, 0x90BF1D91,
     0x1DB71064, 0x6AB020F2, 0xF3B97148, 0x84BE41DE, 0x1ADAD47D, 0x6DDDE4EB, 0xF4D4B551, 0x83D385C7,
     0x136C9856, 0x646BA8C0, 0xFD62F97A, 0x8A65C9EC, 0x14015C4F, 0x63066CD9, 0xFA0F3D63, 0x8D080DF5,
     0x3B6E20C8, 0x4C69105E, 0xD56041E4, 0xA2677172, 0x3C03E4D1, 0x4B04D447, 0xD20D85FD, 0xA50AB56B,
     0x35B5A8FA, 0x42B2986C, 0xDBBBC9D6, 0xACBCF940, 0x32D86CE3, 0x45DF5C75, 0xDCD60DCF, 0xABD13D59,
     0x26D930AC, 0x51DE003A, 0xC8D75180, 0xBFD06116, 0x21B4F4B5, 0x56B3C423, 0xCFBA9599, 0xB8BDA50F,
     0x2802B89E, 0x5F058808, 0xC60CD9B2, 0xB10BE924, 0x2F6F7C87, 0x58684C11, 0xC1611DAB, 0xB6662D3D,
     0x76DC4190, 0x01DB7106, 0x98D220BC, 0xEFD5102A, 0x71B18589, 0x06B6B51F, 0x9FBFE4A5, 0xE8B8D433,
     0x7807C9A2, 0x0F00F934, 0x9609A88E, 0xE10E9818, 0x7F6A0DBB, 0x086D3D2D, 0x91646C97, 0xE6635C01,
     0x6B6B51F4, 0x1C6C6162, 0x856530D8, 0xF262004E, 0x6C0695ED, 0x1B01A57B, 0x8208F4C1, 0xF50FC457,
     0x65B0D9C6, 0x12B7E950, 0x8BBEB8EA, 0xFCB9887C, 0x62DD1DDF, 0x15DA2D49, 0x8CD37CF3, 0xFBD44C65,
     0x4DB26158, 0x3AB551CE, 0xA3BC0074, 0xD4BB30E2, 0x4ADFA541, 0x3DD895D7, 0xA4D1C46D, 0xD3D6F4FB,
     0x4369E96A, 0x346ED9FC, 0xAD678846, 0xDA60B8D0, 0x44042D73, 0x33031DE5, 0xAA0A4C5F, 0xDD0D7CC9,
     0x5005713C, 0x270241AA, 0xBE0B1010, 0xC90C2086, 0x5768B525, 0x206F85B3, 0xB966D409, 0xCE61E49F,
     0x5EDEF90E, 0x29D9C998, 0xB0D09822, 0xC7D7A8B4, 0x59B33D17, 0x2EB40D81, 0xB7BD5C3B, 0xC0BA6CAD,
     0xEDB88320, 0x9ABFB3B6, 0x03B6E20C, 0x74B1D29A, 0xEAD54739, 0x9DD277AF, 0x04DB2615, 0x73DC1683,
     0xE3630B12, 0x94643B84, 0x0D6D6A3E, 0x7A6A5AA8, 0xE40ECF0B, 0x9309FF9D, 0x0A00AE27, 0x7D079EB1,
     0xF00F9344, 0x8708A3D2, 0x1E01F268, 0x6906C2FE, 0xF762575D, 0x806567CB, 0x196C3671, 0x6E6B06E7,
     0xFED41B76, 0x89D32BE0, 0x10DA7A5A, 0x67DD4ACC, 0xF9B9DF6F, 0x8EBEEFF9, 0x17B7BE43, 0x60B08ED5,
     0xD6D6A3E8, 0xA1D1937E, 0x38D8C2C4, 0x4FDFF252, 0xD1BB67F1, 0xA6BC5767, 0x3FB506DD, 0x48B2364B,
     0xD80D2BDA, 0xAF0A1B4C, 0x36034AF6, 0x41047A60, 0xDF60EFC3, 0xA867DF55, 0x316E8EEF, 0x4669BE79,
     0xCB61B38C, 0xBC66831A, 0x256FD2A0, 0x5268E236, 0xCC0C7795, 0xBB0B4703, 0x220216B9, 0x5505262F,
     0xC5BA3BBE, 0xB2BD0B28, 0x2BB45A92, 0x5CB36A04, 0xC2D7FFA7, 0xB5D0CF31, 0x2CD99E8B, 0x5BDEAE1D,
     0x9B64C2B0, 0xEC63F226, 0x756AA39C, 0x026D930A, 0x9C0906A9, 0xEB0E363F, 0x72076785, 0x05005713,
     0x95BF4A82, 0xE2B87A14, 0x7BB12BAE, 0x0CB61B38, 0x92D28E9B, 0xE5D5BE0D, 0x7CDCEFB7, 0x0BDBDF21,
     0x86D3D2D4, 0xF1D4E242, 0x68DDB3F8, 0x1FDA836E, 0x81BE16CD, 0xF6B9265B, 0x6FB077E1, 0x18B74777,
     0x88085AE6, 0xFF0F6A70, 0x66063BCA, 0x11010B5C, 0x8F659EFF, 0xF862AE69, 0x616BFFD3, 0x166CCF45,
     0xA00AE278, 0xD70DD2EE, 0x4E048354, 0x3903B3C2, 0xA7672661, 0xD06016F7, 0x4969474D, 0x3E6E77DB,
     0xAED16A4A, 0xD9D65ADC, 0x40DF0B66, 0x37D83BF0, 0xA9BCAE53, 0xDEBB9EC5, 0x47B2CF7F, 0x30B5FFE9,
     0xBDBDF21C, 0xCABAC28A, 0x53B39330, 0x24B4A3A6, 0xBAD03605, 0xCDD70693, 0x54DE5729, 0x23D967BF,
     0xB3667A2E, 0xC4614AB8, 0x5D681B02, 0x2A6F2B94, 0xB40BBE37, 0xC30C8EA1, 0x5A05DF1B, 0x2D02EF8D]"

section \<open>Operations\<close>

fun crc16_loop :: "u8 \<Rightarrow> u8 \<Rightarrow> u8 list \<Rightarrow> u16" where
  "crc16_loop hi lo [] = (push_bit 8 (ucast hi)) OR ucast lo"
| "crc16_loop hi lo (d # ds) =
     (let wIndex = unat (lo XOR d); lo' = hi XOR chCRCHTalbe ! wIndex; hi' = chCRCLTalbe ! wIndex
      in crc16_loop hi' lo' ds)"

definition utils_crc16 :: "u8 list \<Rightarrow> u16" where
  "utils_crc16 ds = crc16_loop 0xFF 0xFF ds"

definition crc32_byte :: "u32 \<Rightarrow> u8 \<Rightarrow> u32" where
  "crc32_byte crc d = utils_crc_crc32_tab ! unat ((crc XOR ucast d) AND 0xFF) XOR drop_bit 8 crc"

fun crc32_loop :: "u32 \<Rightarrow> u8 list \<Rightarrow> u32" where
  "crc32_loop crc [] = crc"
| "crc32_loop crc (d # ds) = crc32_loop (crc32_byte crc d) ds"

definition utils_crc32_accumulate :: "u32 \<Rightarrow> u8 list \<Rightarrow> u32" where
  "utils_crc32_accumulate crc ds = crc32_loop (crc XOR 0xFFFFFFFF) ds XOR 0xFFFFFFFF"

definition utils_crc32 :: "u8 list \<Rightarrow> u32" where
  "utils_crc32 ds = utils_crc32_accumulate 0 ds"

record crc32_stream_ctx =
  crc :: u32

definition utils_crc32_stream_init :: "crc32_stream_ctx \<Rightarrow> crc32_stream_ctx" where
  "utils_crc32_stream_init ctx = ctx\<lparr>crc := 0xFFFFFFFF\<rparr>"

definition utils_crc32_stream_feed :: "crc32_stream_ctx \<Rightarrow> u8 \<Rightarrow> crc32_stream_ctx" where
  "utils_crc32_stream_feed ctx d = ctx\<lparr>crc := crc32_byte (crc ctx) d\<rparr>"

fun utils_crc32_stream_feed_block :: "crc32_stream_ctx \<Rightarrow> u8 list \<Rightarrow> crc32_stream_ctx" where
  "utils_crc32_stream_feed_block ctx [] = ctx"
| "utils_crc32_stream_feed_block ctx (d # ds) =
     utils_crc32_stream_feed_block (ctx\<lparr>crc := crc32_byte (crc ctx) d\<rparr>) ds"

definition utils_crc32_stream_results :: "crc32_stream_ctx \<Rightarrow> u32" where
  "utils_crc32_stream_results ctx = crc ctx XOR 0xFFFFFFFF"

text \<open>The inner loop of \<open>utils_crc16_ccitt\<close> over the bits of one byte.\<close>

fun ccitt_bits :: "nat \<Rightarrow> u16 \<Rightarrow> u8 \<Rightarrow> u16" where
  "ccitt_bits 0 c d = c"
| "ccitt_bits (Suc n) c d =
     ccitt_bits n (if ((c AND 1) XOR (ucast d AND 1)) \<noteq> 0 then drop_bit 1 c XOR 0x8408 else drop_bit 1 c)
       (drop_bit 1 d)"

fun ccitt_loop :: "u16 \<Rightarrow> u8 list \<Rightarrow> u16" where
  "ccitt_loop c [] = c"
| "ccitt_loop c (d # ds) = ccitt_loop (ccitt_bits 8 c d) ds"

definition utils_crc16_ccitt :: "u8 list \<Rightarrow> u16" where
  "utils_crc16_ccitt ds = (if ds = [] then NOT 0xFFFF else NOT (ccitt_loop 0xFFFF ds))"

section \<open>Polynomial division bit by bit\<close>

text \<open>One step of the reflected shift register with feedback polynomial \<open>p\<close>.\<close>

definition lfsr :: "'a::len word \<Rightarrow> 'a word \<Rightarrow> 'a word" where
  "lfsr p x = drop_bit 1 x XOR (if bit x 0 then p else 0)"

definition crc_ref_byte :: "'a::len word \<Rightarrow> 'a word \<Rightarrow> u8 \<Rightarrow> 'a word" where
  "crc_ref_byte p x d = (lfsr p ^^ 8) (x XOR ucast d)"

definition crc_ref :: "'a::len word \<Rightarrow> 'a word \<Rightarrow> u8 list \<Rightarrow> 'a word" where
  "crc_ref p x ds = fold (\<lambda>d x. crc_ref_byte p x d) ds x"

lemma lfsr_xor: "lfsr p (x XOR y) = lfsr p x XOR lfsr p y"
  by (rule bit_word_eqI) (auto simp: lfsr_def bit_simps)

lemma lfsr_pow_xor: "(lfsr p ^^ n) (x XOR y) = (lfsr p ^^ n) x XOR (lfsr p ^^ n) y"
  by (induction n) (simp_all add: lfsr_xor)

lemma lfsr_pow_shift:
  assumes "\<And>j. j < n \<Longrightarrow> \<not> bit x j"
  shows "(lfsr p ^^ n) x = drop_bit n x"
  using assms
proof (induction n)
  case (Suc n)
  then have "\<not> bit (drop_bit n x) 0" by (simp add: bit_simps)
  with Suc show ?case by (simp add: lfsr_def)
qed simp

lemma low_high_split: "x = (x AND 0xFF) XOR push_bit 8 (drop_bit 8 x)" for x :: "'a::len word"
  by (rule bit_word_eqI) (auto simp: bit_simps bit_mask_int)

lemma lfsr_byte: "(lfsr p ^^ 8) x = (lfsr p ^^ 8) (x AND 0xFF) XOR drop_bit 8 x" for x :: "'a::len word"
proof -
  have "(lfsr p ^^ 8) x = (lfsr p ^^ 8) ((x AND 0xFF) XOR push_bit 8 (drop_bit 8 x))"
    by (subst low_high_split [of x]) simp
  also have "\<dots> = (lfsr p ^^ 8) (x AND 0xFF) XOR drop_bit 8 (push_bit 8 (drop_bit 8 x))"
    unfolding lfsr_pow_xor by (subst (2) lfsr_pow_shift) (auto simp: bit_simps)
  also have "drop_bit 8 (push_bit 8 (drop_bit 8 x)) = drop_bit 8 x"
    by (rule bit_word_eqI) (auto simp: bit_simps dest: bit_imp_le_length)
  finally show ?thesis .
qed

lemma ucast_high: "drop_bit 8 (x XOR ucast (d :: u8)) = drop_bit 8 x" for x :: "'a::len word"
  by (rule bit_word_eqI) (auto simp: bit_simps dest: bit_imp_le_length)

text \<open>A table of a linear function is determined by its values at the powers of two.\<close>

fun xtab :: "'a::len word list \<Rightarrow> 'a word list" where
  "xtab [] = [0]"
| "xtab (b # bs) = xtab bs @ map (\<lambda>x. x XOR b) (xtab bs)"

lemma length_xtab [simp]: "length (xtab bs) = 2 ^ length bs"
  by (induction bs) simp_all

lemma nat_xor_power: "j < 2 ^ k \<Longrightarrow> (word_of_nat j :: 'a::len word) XOR 2 ^ k = word_of_nat j + 2 ^ k"
proof -
  assume "j < 2 ^ k"
  then have "\<not> bit j k" by (simp add: bit_iff_odd)
  then have "(word_of_nat j :: 'a word) AND 2 ^ k = 0"
    by (intro bit_word_eqI) (auto simp: bit_simps)
  from disjunctive_add_eq_xor [OF this] show ?thesis by simp
qed

lemma xtab_nth:
  fixes f :: "'a::len word \<Rightarrow> 'a word"
  assumes lin: "\<And>x y. f (x XOR y) = f x XOR f y" and i: "i < 2 ^ n"
  shows "xtab (map (\<lambda>k. f (push_bit k 1)) (rev [0..<n])) ! i = f (word_of_nat i)"
  using i
proof (induction n arbitrary: i)
  case 0
  have "f 0 = 0" using lin [of 0 0] by simp
  with 0 show ?case by simp
next
  case (Suc n)
  show ?case
  proof (cases "i < 2 ^ n")
    case True
    with Suc.IH show ?thesis by (simp add: nth_append)
  next
    case False
    then obtain j where j: "i = j + 2 ^ n" by (metis le_add_diff_inverse2 not_le)
    with Suc.prems have "j < 2 ^ n" by simp
    with Suc.IH [OF this] j False show ?thesis by (simp add: nth_append lin [symmetric] nat_xor_power)
  qed
qed

lemma funpow8: "(f ^^ 8) x = f (f (f (f (f (f (f (f x)))))))"
  by (simp add: numeral_eq_Suc)

lemma upto8: "rev [0..<8] = [7, 6, 5, 4, 3, 2, 1, 0 :: nat]"
  by code_simp

lemma crc32_pows:
  "map (\<lambda>k. (lfsr 0xEDB88320 ^^ 8) (push_bit k (1 :: u32))) [7, 6, 5, 4, 3, 2, 1, 0] =
     [0xEDB88320, 0x76DC4190, 0x3B6E20C8, 0x1DB71064, 0x0EDB8832, 0x076DC419, 0xEE0E612C, 0x77073096]"
  by (simp add: funpow8 lfsr_def)

lemma crc32_tab_nth: "i < 256 \<Longrightarrow> utils_crc_crc32_tab ! i = (lfsr 0xEDB88320 ^^ 8) (word_of_nat i)"
proof -
  assume "i < 256"
  then have "xtab (map (\<lambda>k. (lfsr 0xEDB88320 ^^ 8) (push_bit k (1 :: u32))) (rev [0..<8])) ! i =
      (lfsr 0xEDB88320 ^^ 8) (word_of_nat i)"
    by (intro xtab_nth [OF lfsr_pow_xor]) simp
  moreover have "xtab (map (\<lambda>k. (lfsr 0xEDB88320 ^^ 8) (push_bit k (1 :: u32))) (rev [0..<8])) = utils_crc_crc32_tab"
    unfolding upto8 crc32_pows by (simp add: utils_crc_crc32_tab_def)
  ultimately show ?thesis by simp
qed

definition crc16_tab :: "u16 list" where
  "crc16_tab = map2 (\<lambda>l h. push_bit 8 (ucast l) OR ucast h) chCRCLTalbe chCRCHTalbe"

lemma crc16_pows:
  "map (\<lambda>k. (lfsr 0xA001 ^^ 8) (push_bit k (1 :: u16))) [7, 6, 5, 4, 3, 2, 1, 0] =
     [0xA001, 0xF001, 0xD801, 0xCC01, 0xC601, 0xC301, 0xC181, 0xC0C1]"
  by (simp add: funpow8 lfsr_def)

lemma crc16_tab_nth: "i < 256 \<Longrightarrow> crc16_tab ! i = (lfsr 0xA001 ^^ 8) (word_of_nat i)"
proof -
  assume "i < 256"
  then have "xtab (map (\<lambda>k. (lfsr 0xA001 ^^ 8) (push_bit k (1 :: u16))) (rev [0..<8])) ! i =
      (lfsr 0xA001 ^^ 8) (word_of_nat i)"
    by (intro xtab_nth [OF lfsr_pow_xor]) simp
  moreover have "xtab (map (\<lambda>k. (lfsr 0xA001 ^^ 8) (push_bit k (1 :: u16))) (rev [0..<8])) = crc16_tab"
    unfolding upto8 crc16_pows by (simp add: crc16_tab_def chCRCHTalbe_def chCRCLTalbe_def)
  ultimately show ?thesis by simp
qed

lemma crc16_tab_bytes:
  "i < 256 \<Longrightarrow> crc16_tab ! i = push_bit 8 (ucast (chCRCLTalbe ! i)) OR ucast (chCRCHTalbe ! i)"
proof -
  have "length chCRCLTalbe = 256" "length chCRCHTalbe = 256" by code_simp+
  then show "i < 256 \<Longrightarrow> ?thesis" by (simp add: crc16_tab_def)
qed

lemma crc32_byte_ref: "crc32_byte c d = crc_ref_byte 0xEDB88320 c d"
proof -
  let ?i = "unat ((c XOR ucast d) AND 0xFF)"
  have "(c XOR ucast d) AND 0xFF \<le> 0xFF" by (rule word_and_le1)
  then have "?i < 256" by (simp add: word_le_nat_alt)
  with crc32_tab_nth [of ?i] show ?thesis
    unfolding crc32_byte_def crc_ref_byte_def lfsr_byte [of _ "c XOR ucast d"] ucast_high by simp
qed

lemma crc32_loop_ref: "crc32_loop c ds = crc_ref 0xEDB88320 c ds"
  by (induction ds arbitrary: c) (simp_all add: crc_ref_def crc32_byte_ref)

lemma crc16_loop_ref: "crc16_loop hi lo ds = crc_ref 0xA001 (push_bit 8 (ucast hi) OR ucast lo) ds"
proof (induction ds arbitrary: hi lo)
  case (Cons d ds)
  let ?c = "push_bit 8 (ucast hi) OR ucast lo :: u16" and ?i = "unat (lo XOR d)"
  have i: "?i < 256" using unsigned_less [of "lo XOR d"] by simp
  have low: "(?c XOR ucast d) AND 0xFF = ucast (lo XOR d)"
    by (rule bit_word_eqI) (auto simp: bit_simps bit_mask_int dest: bit_imp_le_length)
  have high: "drop_bit 8 ?c = ucast hi"
    by (rule bit_word_eqI) (auto simp: bit_simps dest: bit_imp_le_length)
  have "crc_ref_byte 0xA001 ?c d = crc16_tab ! ?i XOR ucast hi"
    using crc16_tab_nth [OF i] unfolding crc_ref_byte_def lfsr_byte [of _ "?c XOR ucast d"] ucast_high low high
    by simp
  also have "\<dots> = push_bit 8 (ucast (chCRCLTalbe ! ?i)) OR ucast (hi XOR chCRCHTalbe ! ?i)"
    unfolding crc16_tab_bytes [OF i]
    by (rule bit_word_eqI) (auto simp: bit_simps dest: bit_imp_le_length)
  finally show ?case using Cons by (simp add: crc_ref_def Let_def)
qed (simp add: crc_ref_def)

lemma ccitt_bits_ref: "ccitt_bits n c d XOR ucast (drop_bit n d) = (lfsr 0x8408 ^^ n) (c XOR ucast d)"
proof (induction n arbitrary: c d)
  case (Suc n)
  have bit0: "((c AND 1) XOR (ucast d AND 1)) \<noteq> 0 \<longleftrightarrow> bit (c XOR ucast d) 0"
  proof -
    have "(c AND 1) XOR (ucast d AND 1) = (c XOR ucast d) AND 1"
      by (rule bit_word_eqI) (auto simp: bit_simps)
    then show ?thesis by (simp add: and_one_eq mod_2_eq_odd bit_0)
  qed
  have "(if bit (c XOR ucast d) 0 then drop_bit 1 c XOR 0x8408 else drop_bit 1 c) XOR ucast (drop_bit 1 d) =
      lfsr 0x8408 (c XOR ucast d)"
    by (rule bit_word_eqI) (auto simp: lfsr_def bit_simps dest: bit_imp_le_length)
  with Suc.IH [of _ "drop_bit 1 d"] show ?case unfolding ccitt_bits.simps bit0 funpow_Suc_right
    by (simp add: drop_bit_drop_bit)
qed simp

lemma ccitt_loop_ref: "ccitt_loop c ds = crc_ref 0x8408 c ds"
proof (induction ds arbitrary: c)
  case (Cons d ds)
  have "drop_bit 8 d = 0" by (rule bit_word_eqI) (auto simp: bit_simps dest: bit_imp_le_length)
  with ccitt_bits_ref [of 8 c d] Cons show ?case by (simp add: crc_ref_def crc_ref_byte_def)
qed (simp add: crc_ref_def)

section \<open>Properties\<close>

text \<open>
  C10: the table-driven \<open>utils_crc16\<close> and \<open>utils_crc32\<close> and the bit-serial \<open>utils_crc16_ccitt\<close> compute,
  for every input, the bitwise division by the reflected polynomials 0xA001 (of 0x8005),
  0xEDB88320 and 0x8408 with all-ones start value, complemented for the last two. In particular
  all 768 table entries are right.
\<close>

theorem utils_crc_equals_bitwise:
  "utils_crc16 ds = crc_ref 0xA001 0xFFFF ds \<and>
   utils_crc32 ds = NOT (crc_ref 0xEDB88320 0xFFFFFFFF ds) \<and>
   utils_crc16_ccitt ds = NOT (crc_ref 0x8408 0xFFFF ds)"
proof -
  have "(0xFFFFFFFF :: u32) = - 1" by simp
  then have x: "(x :: u32) XOR 0xFFFFFFFF = NOT x" for x
    using bit.xor_one_right [of x] by metis
  have "utils_crc32 ds = crc32_loop 0xFFFFFFFF ds XOR 0xFFFFFFFF"
    by (simp add: utils_crc32_def utils_crc32_accumulate_def)
  then have "utils_crc32 ds = NOT (crc_ref 0xEDB88320 0xFFFFFFFF ds)" unfolding x crc32_loop_ref .
  then show ?thesis
    by (simp add: utils_crc16_def crc16_loop_ref utils_crc16_ccitt_def ccitt_loop_ref crc_ref_def)
qed

lemma crc32_loop_append: "crc32_loop c (as @ bs) = crc32_loop (crc32_loop c as) bs"
  by (induction as arbitrary: c) simp_all

lemma feed_block_crc: "crc (utils_crc32_stream_feed_block ctx ds) = crc32_loop (crc ctx) ds"
  by (induction ds arbitrary: ctx) simp_all

text \<open>
  C17: CRC-32 can be computed piecewise: accumulating over a second block continues the checksum of
  the first, and the streaming interface, fed with blocks or single bytes in any division, gives
  the checksum of the concatenation.
\<close>

theorem utils_crc32_piecewise:
  "utils_crc32_accumulate (utils_crc32_accumulate c as) bs = utils_crc32_accumulate c (as @ bs) \<and>
   utils_crc32_stream_results (utils_crc32_stream_feed_block
     (utils_crc32_stream_feed_block (utils_crc32_stream_init ctx) as) bs) = utils_crc32 (as @ bs) \<and>
   utils_crc32_stream_feed ctx d = utils_crc32_stream_feed_block ctx [d]"
  by (simp add: utils_crc32_accumulate_def crc32_loop_append utils_crc32_stream_results_def feed_block_crc
      utils_crc32_stream_init_def utils_crc32_def utils_crc32_stream_feed_def xor.assoc)

end
