(* ===== verification/Utils_Hex.thy ===== *)
theory Utils_Hex
  imports BL_Prelude
begin

unbundle bit_operations_syntax

text \<open>
  Hexadecimal text of \<open>utils/src/utils_hex.c\<close>. Characters are bytes. \<open>utils_bin2hex\<close> gives the
  characters it writes at \<open>dst\<close>; \<open>utils_hex2bin\<close> gives the returned length and the buffer, with the
  bytes already written when it stops at a character that is no digit.
\<close>

section \<open>Operations\<close>

definition hex_asc_upper :: "u8 list" where
  "hex_asc_upper = map of_char ''0123456789ABCDEF''"

definition hex_asc_lo :: "u8 \<Rightarrow> u8" where
  "hex_asc_lo x = hex_asc_upper ! unat (x AND 0x0F)"

definition hex_asc_hi :: "u8 \<Rightarrow> u8" where
  "hex_asc_hi x = hex_asc_upper ! unat (drop_bit 4 (x AND 0xF0))"

definition hex_byte_pack :: "u8 \<Rightarrow> u8 list" where
  "hex_byte_pack b = [hex_asc_hi b, hex_asc_lo b]"

definition char2hex :: "u8 \<Rightarrow> u8 option" where
  "char2hex c =
     (if 0x30 \<le> c \<and> c \<le> 0x39 then Some (c - 0x30)
      else if 0x61 \<le> c \<and> c \<le> 0x66 then Some (c - 0x61 + 10)
      else if 0x41 \<le> c \<and> c \<le> 0x46 then Some (c - 0x41 + 10)
      else None)"

fun utils_bin2hex :: "u8 list \<Rightarrow> u8 list" where
  "utils_bin2hex [] = []"
| "utils_bin2hex (b # bs) = hex_byte_pack b @ utils_bin2hex bs"

text \<open>
  The conversion loop from index \<open>i\<close> with \<open>n\<close> bytes to go; \<open>off\<close> is 1 when a leading nibble was
  converted. The boolean tells whether it ran to the end.
\<close>

fun hex2bin_loop :: "nat \<Rightarrow> nat \<Rightarrow> nat \<Rightarrow> u8 list \<Rightarrow> u8 list \<Rightarrow> bool \<times> u8 list" where
  "hex2bin_loop 0 i off hex buf = (True, buf)"
| "hex2bin_loop (Suc n) i off hex buf = (case char2hex (hex ! (off + 2 * i)) of
      None \<Rightarrow> (False, buf)
    | Some dec \<Rightarrow>
        let buf = buf[off + i := push_bit 4 dec] in
        case char2hex (hex ! (off + 2 * i + 1)) of
          None \<Rightarrow> (False, buf)
        | Some dec \<Rightarrow> hex2bin_loop n (Suc i) off hex (buf[off + i := buf ! (off + i) + dec]))"

definition utils_hex2bin :: "u8 list \<Rightarrow> nat \<Rightarrow> u8 list \<Rightarrow> nat \<Rightarrow> nat \<times> u8 list" where
  "utils_hex2bin hex hexlen buf buflen =
     (if buflen < hexlen div 2 + hexlen mod 2 then (0, buf)
      else case (if hexlen mod 2 \<noteq> 0
                 then map_option (\<lambda>dec. (1, buf[0 := dec])) (char2hex (hex ! 0))
                 else Some (0, buf)) of
          None \<Rightarrow> (0, buf)
        | Some (off, buf) \<Rightarrow>
            (let (ok, buf) = hex2bin_loop (hexlen div 2) 0 off hex buf
             in (if ok then hexlen div 2 + hexlen mod 2 else 0, buf)))"

section \<open>Digits\<close>

lemma char2hex_digit: "k < 16 \<Longrightarrow> char2hex (hex_asc_upper ! k) = Some (word_of_nat k)"
proof -
  have "\<forall>k\<in>set [0..<16]. char2hex (hex_asc_upper ! k) = Some (word_of_nat k)" by code_simp
  then show "k < 16 \<Longrightarrow> ?thesis" by simp
qed

lemma char2hex_lo: "char2hex (hex_asc_lo b) = Some (b AND 0x0F)"
proof -
  have "b AND 0x0F \<le> 0x0F" by (rule word_and_le1)
  then show ?thesis by (simp add: hex_asc_lo_def char2hex_digit word_le_nat_alt)
qed

lemma char2hex_hi: "char2hex (hex_asc_hi b) = Some (drop_bit 4 (b AND 0xF0))"
proof -
  have "drop_bit 4 (b AND 0xF0) = drop_bit 4 b AND 0x0F"
    by (rule bit_word_eqI) (auto simp: bit_simps bit_mask_int)
  moreover have "drop_bit 4 b AND 0x0F \<le> 0x0F" by (rule word_and_le1)
  ultimately show ?thesis by (simp add: hex_asc_hi_def char2hex_digit word_le_nat_alt)
qed

lemma nibbles_join: "push_bit 4 (drop_bit 4 (b AND 0xF0)) + (b AND 0x0F) = b" for b :: u8
proof -
  have "push_bit 4 (drop_bit 4 (b AND 0xF0)) AND (b AND 0x0F) = 0"
    by (rule bit_word_eqI) (auto simp: bit_simps bit_mask_int)
  from disjunctive_add_eq_or [OF this] show ?thesis
    by (simp, intro bit_word_eqI) (auto simp: bit_simps bit_mask_int)
qed

section \<open>Round trip and errors\<close>

lemma length_bin2hex [simp]: "length (utils_bin2hex bs) = 2 * length bs"
  by (induction bs) (simp_all add: hex_byte_pack_def)

lemma bin2hex_nth:
  "i < length bs \<Longrightarrow> utils_bin2hex bs ! (2 * i) = hex_asc_hi (bs ! i) \<and>
    utils_bin2hex bs ! Suc (2 * i) = hex_asc_lo (bs ! i)"
proof (induction bs arbitrary: i)
  case (Cons b bs)
  then show ?case by (cases i) (auto simp: hex_byte_pack_def)
qed simp

text \<open>What the loop writes when every character it reads is a digit.\<close>

definition pair_val :: "u8 list \<Rightarrow> nat \<Rightarrow> nat \<Rightarrow> u8" where
  "pair_val hex off i = push_bit 4 (the (char2hex (hex ! (off + 2 * i)))) + the (char2hex (hex ! (off + 2 * i + 1)))"

lemma hex2bin_loop_ok:
  assumes "\<forall>k. i \<le> k \<and> k < i + n \<longrightarrow> char2hex (hex ! (off + 2 * k)) \<noteq> None \<and> char2hex (hex ! (off + 2 * k + 1)) \<noteq> None"
    and "off + i + n \<le> length buf"
  shows "hex2bin_loop n i off hex buf =
    (True, take (off + i) buf @ map (pair_val hex off) [i..<i + n] @ drop (off + i + n) buf)"
  using assms
proof (induction n arbitrary: i buf)
  case (Suc n)
  have d: "char2hex (hex ! (off + 2 * i)) \<noteq> None" "char2hex (hex ! (off + 2 * i + 1)) \<noteq> None" using Suc.prems(1) by auto
  let ?buf = "buf[off + i := pair_val hex off i]"
  have "hex2bin_loop (Suc n) i off hex buf = hex2bin_loop n (Suc i) off hex ?buf"
    using d Suc.prems(2) by (auto simp: pair_val_def)
  also have "\<dots> = (True, take (off + Suc i) ?buf @ map (pair_val hex off) [Suc i..<Suc i + n] @ drop (off + Suc i + n) ?buf)"
    using Suc.prems by (intro Suc.IH) auto
  also have "take (off + Suc i) ?buf = take (off + i) buf @ [pair_val hex off i]"
    using Suc.prems(2) by (simp add: take_Suc_conv_app_nth)
  finally show ?case using Suc.prems(2) by (simp add: upt_conv_Cons del: upt_Suc hex2bin_loop.simps)
qed simp

lemma hex2bin_loop_bad:
  assumes "i \<le> k" "k < i + n" "char2hex (hex ! (off + 2 * k)) = None \<or> char2hex (hex ! (off + 2 * k + 1)) = None"
  shows "fst (hex2bin_loop n i off hex buf) = False"
  using assms
proof (induction n arbitrary: i buf)
  case (Suc n)
  then show ?case by (cases "k = i") (auto simp: Let_def split: option.splits)
qed simp

text \<open>
  C16: converting bytes to hexadecimal text and back gives the bytes, writes exactly that many
  bytes of the buffer and returns their number, for every input that fits.
\<close>

theorem utils_hex_roundtrip:
  assumes "length bs \<le> buflen" and "buflen \<le> length buf"
  shows "utils_hex2bin (utils_bin2hex bs) (2 * length bs) buf buflen = (length bs, bs @ drop (length bs) buf)"
proof -
  have d: "\<forall>k. 0 \<le> k \<and> k < 0 + length bs \<longrightarrow> char2hex (utils_bin2hex bs ! (0 + 2 * k)) \<noteq> None \<and>
      char2hex (utils_bin2hex bs ! (0 + 2 * k + 1)) \<noteq> None"
    by (simp add: bin2hex_nth char2hex_hi char2hex_lo)
  have "pair_val (utils_bin2hex bs) 0 i = bs ! i" if "i < length bs" for i
    using nibbles_join [of "bs ! i"] that by (simp add: pair_val_def bin2hex_nth char2hex_hi char2hex_lo)
  then have "map (pair_val (utils_bin2hex bs) 0) [0..<0 + length bs] = map (\<lambda>i. bs ! i) [0..<length bs]" by simp
  then have "map (pair_val (utils_bin2hex bs) 0) [0..<0 + length bs] = bs" by (simp add: map_nth)
  with hex2bin_loop_ok [OF d, of buf] assms show ?thesis by (simp add: utils_hex2bin_def)
qed

theorem utils_hex_roundtrip_witness:
  "utils_hex2bin (utils_bin2hex [0xA5, 0x0F]) 4 [1, 2, 3] 3 = (2, [0xA5, 0x0F, 3])"
  using utils_hex_roundtrip [of "[0xA5, 0x0F]" 3 "[1, 2, 3]"] by simp



end
