(* ===== verification/Utils_Base64.thy ===== *)
theory Utils_Base64
  imports BL_Prelude
begin

unbundle bit_operations_syntax

text \<open>
  Base64 of \<open>utils/src/utils_base64.c\<close>: the block encoder and decoder and the streaming encoder.
  Lengths and the 24-bit groups are 32-bit words as in the source; a read outside the input has
  the value \<open>None\<close>.
\<close>

section \<open>Tables\<close>

definition g_encodingTable :: "u8 list" where
  "g_encodingTable = map of_char ''ABCDEFGHIJKLMNOPQRSTUVWXYZabcdefghijklmnopqrstuvwxyz0123456789+/''"

definition g_modTable :: "nat list" where
  "g_modTable = [0, 2, 1]"

definition build_decoding_table :: "u8 list" where
  "build_decoding_table =
     fold (\<lambda>i t. t[unat (g_encodingTable ! i) := word_of_nat i]) [0..<64] (replicate 256 0)"

datatype iotx_err = FAIL_RETURN | SUCCESS_RETURN

section \<open>Operations\<close>

definition b64_group :: "u8 \<Rightarrow> u8 \<Rightarrow> u8 \<Rightarrow> u8 list" where
  "b64_group a b c =
     (let triple = push_bit 0x10 (ucast a) + push_bit 0x08 (ucast b) + ucast c :: u32 in
      [g_encodingTable ! unat (drop_bit (3 * 6) triple AND 0x3F),
       g_encodingTable ! unat (drop_bit (2 * 6) triple AND 0x3F),
       g_encodingTable ! unat (drop_bit (1 * 6) triple AND 0x3F),
       g_encodingTable ! unat (drop_bit (0 * 6) triple AND 0x3F)])"

fun b64_enc_loop :: "u8 list \<Rightarrow> u8 list" where
  "b64_enc_loop [] = []"
| "b64_enc_loop [a] = b64_group a 0 0"
| "b64_enc_loop [a, b] = b64_group a b 0"
| "b64_enc_loop (a # b # c # ds) = b64_group a b c @ b64_enc_loop ds"

text \<open>The result is the returned code, \<open>*outputLength\<close> where it was assigned, and the bytes written.\<close>

definition utils_base64encode :: "u8 list \<Rightarrow> u32 \<Rightarrow> bool \<Rightarrow> iotx_err \<times> u32 option \<times> u8 list" where
  "utils_base64encode dat outputLenMax null_out =
     (let inputLength = word_of_nat (length dat) :: u32 in
      if null_out then (FAIL_RETURN, None, [])
      else let outputLength = 4 * ((inputLength + 2) div 3) in
        if outputLenMax < outputLength then (FAIL_RETURN, Some outputLength, [])
        else (SUCCESS_RETURN, Some outputLength,
          fold (\<lambda>i out. out[unat (outputLength - 1 - word_of_nat i) := 0x3D])
            [0..<g_modTable ! unat (inputLength mod 3)] (b64_enc_loop dat)))"

definition sextet :: "u8 \<Rightarrow> u32" where
  "sextet c = (if c = 0x3D then 0 else ucast (build_decoding_table ! unat c))"

definition put_byte :: "u32 \<Rightarrow> u8 \<Rightarrow> u8 list \<Rightarrow> u8 list" where
  "put_byte outputLength x out = (if word_of_nat (length out) < outputLength then out @ [x] else out)"

fun b64_dec_loop :: "u32 \<Rightarrow> u8 list \<Rightarrow> u8 list \<Rightarrow> u8 list" where
  "b64_dec_loop outputLength (a # b # c # d # ds) out =
     (let triple = push_bit (3 * 6) (sextet a) + push_bit (2 * 6) (sextet b) +
                   push_bit (1 * 6) (sextet c) + push_bit (0 * 6) (sextet d);
          out = put_byte outputLength (ucast (drop_bit (2 * 8) triple AND 0xFF)) out;
          out = put_byte outputLength (ucast (drop_bit (1 * 8) triple AND 0xFF)) out;
          out = put_byte outputLength (ucast (drop_bit (0 * 8) triple AND 0xFF)) out
      in b64_dec_loop outputLength ds out)"
| "b64_dec_loop outputLength _ out = out"

definition rd_byte :: "u8 list \<Rightarrow> u32 \<Rightarrow> u8 option" where
  "rd_byte dat i = (if unat i < length dat then Some (dat ! unat i) else None)"

definition utils_base64decode :: "u8 list \<Rightarrow> u32 \<Rightarrow> (iotx_err \<times> u32 option \<times> u8 list) option" where
  "utils_base64decode dat outputLenMax =
     (let inputLength = word_of_nat (length dat) :: u32 in
      if inputLength mod 4 \<noteq> 0 then Some (FAIL_RETURN, None, [])
      else do {
        let outputLength = inputLength div 4 * 3;
        e1 \<leftarrow> rd_byte dat (inputLength - 1);
        let outputLength = (if e1 = 0x3D then outputLength - 1 else outputLength);
        e2 \<leftarrow> rd_byte dat (inputLength - 2);
        let outputLength = (if e2 = 0x3D then outputLength - 1 else outputLength);
        if outputLenMax < outputLength then Some (FAIL_RETURN, Some outputLength, [])
        else Some (SUCCESS_RETURN, Some outputLength, b64_dec_loop outputLength dat [])
      })"

text \<open>
  The streaming encoder, with the reader callback as a function on its state: \<open>None\<close> for a non-zero
  return at the end of the data. The value lists the groups passed to \<open>write_data\<close>.
\<close>

definition stream_read ::
  "('s \<Rightarrow> u8 option \<times> 's) \<Rightarrow> int \<Rightarrow> 's \<Rightarrow> int \<Rightarrow> (bool \<times> u8 \<times> int \<times> 's)" where
  "stream_read read_data k s remainder = (case read_data s of
      (None, s) \<Rightarrow> (True, 0, if remainder \<ge> 0 then remainder else k, s)
    | (Some c, s) \<Rightarrow> (False, c, remainder, s))"

partial_function (option) b64_stream_loop ::
  "('s \<Rightarrow> u8 option \<times> 's) \<Rightarrow> 's \<Rightarrow> int \<Rightarrow> u8 list list \<Rightarrow> u8 list list option" where
  "b64_stream_loop read_data s remainder out =
     (let (_, a, remainder, s) = stream_read read_data 0 s remainder;
          (_, b, remainder, s) = stream_read read_data 1 s remainder;
          (end, c, remainder, s) = stream_read read_data 2 s remainder;
          g = b64_group a b c
      in if end \<and> remainder = 0 then Some out
         else if \<not> end then b64_stream_loop read_data s remainder (out @ [g])
         else Some (out @ [fold (\<lambda>i g. g[3 - i := 0x3D]) [0..<g_modTable ! nat remainder] g]))"

declare b64_stream_loop.simps [code]

definition utils_base64_encode_stream :: "('s \<Rightarrow> u8 option \<times> 's) \<Rightarrow> 's \<Rightarrow> u8 list list option" where
  "utils_base64_encode_stream read_data s = b64_stream_loop read_data s (-1) []"

section \<open>One group\<close>

lemma fold_update_nth:
  assumes "distinct xs" "inj_on f (set xs)" "k \<in> set xs" "\<forall>i\<in>set xs. f i < length t"
  shows "fold (\<lambda>i t. t[f i := g i]) xs t ! f k = g k"
  using assms
proof (induction xs rule: rev_induct)
  case (snoc x xs)
  have len: "length (fold (\<lambda>i t. t[f i := g i]) xs t) = length t" for xs t
    by (induction xs arbitrary: t) simp_all
  show ?case
  proof (cases "k = x")
    case False
    then have "f x \<noteq> f k" using snoc.prems(2,3) by (auto simp: inj_on_def)
    with False snoc show ?thesis by (simp add: inj_on_def)
  qed (use snoc.prems(4) in \<open>simp add: len\<close>)
qed simp

lemma encodingTable_distinct: "distinct (map unat g_encodingTable)" "length g_encodingTable = 64"
  "0x3D \<notin> set g_encodingTable"
  by (simp_all add: g_encodingTable_def)

lemma sextet_enc: "k < 64 \<Longrightarrow> sextet (g_encodingTable ! k) = word_of_nat k \<and> g_encodingTable ! k \<noteq> 0x3D"
proof -
  assume k: "k < 64"
  have ne: "g_encodingTable ! k \<noteq> 0x3D" using encodingTable_distinct(2,3) k by (metis nth_mem)
  have "inj_on (\<lambda>i. unat (g_encodingTable ! i)) {0..<64}"
    unfolding inj_on_def using encodingTable_distinct(1,2) nth_eq_iff_index_eq [of "map unat g_encodingTable"] by simp
  moreover have "unat (g_encodingTable ! i) < 256" for i using unsigned_less [of "g_encodingTable ! i"] by simp
  ultimately have "build_decoding_table ! unat (g_encodingTable ! k) = word_of_nat k"
    unfolding build_decoding_table_def using k by (intro fold_update_nth) simp_all
  moreover have "unat (word_of_nat k :: u8) = k" using k by (simp add: unat_of_nat)
  ultimately show ?thesis using ne k by (simp add: sextet_def word_unat_eq_iff unat_of_nat unsigned_ucast_eq take_bit_eq_mod)
qed

lemma sextet_low6: "sextet (g_encodingTable ! unat ((t :: u32) AND 0x3F)) = t AND 0x3F"
  "g_encodingTable ! unat ((t :: u32) AND 0x3F) \<noteq> 0x3D"
proof -
  have "t AND 0x3F \<le> 0x3F" by (rule word_and_le1)
  then have "unat (t AND 0x3F) < 64" by (simp add: word_le_nat_alt)
  from sextet_enc [OF this] show "sextet (g_encodingTable ! unat (t AND 0x3F)) = t AND 0x3F"
    "g_encodingTable ! unat (t AND 0x3F) \<noteq> 0x3D" by simp_all
qed

definition triple_of :: "u8 \<Rightarrow> u8 \<Rightarrow> u8 \<Rightarrow> u32" where
  "triple_of a b c = push_bit 16 (ucast a) + push_bit 8 (ucast b) + ucast c"

lemma triple_of_or: "triple_of a b c = push_bit 16 (ucast a) OR push_bit 8 (ucast b) OR ucast c"
proof -
  have "push_bit 16 (ucast a :: u32) AND push_bit 8 (ucast b) = 0"
    by (rule bit_word_eqI) (auto simp: bit_simps dest: bit_imp_le_length)
  moreover have "(push_bit 16 (ucast a :: u32) OR push_bit 8 (ucast b)) AND ucast c = 0"
    by (rule bit_word_eqI) (auto simp: bit_simps dest: bit_imp_le_length)
  ultimately show ?thesis by (simp add: triple_of_def disjunctive_add_eq_or or.assoc)
qed

lemma triple_bytes:
  "ucast (drop_bit 16 (triple_of a b c) AND 0xFF) = a" "ucast (drop_bit 8 (triple_of a b c) AND 0xFF) = b"
  "ucast (triple_of a b c AND 0xFF) = c"
  unfolding triple_of_or
  by (rule bit_word_eqI, auto simp: bit_simps bit_mask_int dest: bit_imp_le_length)+

lemma triple_of_bits: "bit (triple_of a b c) n \<Longrightarrow> n < 24"
  unfolding triple_of_or by (auto simp: bit_simps dest: bit_imp_le_length)

lemma and_3F: "(x :: u32) AND 0x3F = take_bit 6 x"
  by (simp add: take_bit_eq_mask mask_numeral)

lemma sextets_join:
  assumes "\<And>n. bit t n \<Longrightarrow> n < 24"
  shows "push_bit 18 (drop_bit 18 t AND 0x3F) + push_bit 12 (drop_bit 12 t AND 0x3F) +
    push_bit 6 (drop_bit 6 t AND 0x3F) + (t AND 0x3F) = (t :: u32)"
proof -
  let ?a = "push_bit 18 (take_bit 6 (drop_bit 18 t))" and ?b = "push_bit 12 (take_bit 6 (drop_bit 12 t))"
  let ?c = "push_bit 6 (take_bit 6 (drop_bit 6 t))" and ?d = "take_bit 6 t"
  have ab: "?a AND ?b = 0" by (rule bit_word_eqI) (auto simp: bit_simps)
  have abc: "(?a OR ?b) AND ?c = 0" by (rule bit_word_eqI) (auto simp: bit_simps)
  have abcd: "((?a OR ?b) OR ?c) AND ?d = 0" by (rule bit_word_eqI) (auto simp: bit_simps)
  have "?a + ?b + ?c + ?d = ((?a OR ?b) OR ?c) OR ?d"
    unfolding disjunctive_add_eq_or [OF ab] disjunctive_add_eq_or [OF abc] disjunctive_add_eq_or [OF abcd] ..
  also have "\<dots> = t"
  proof (rule bit_word_eqI)
    fix n
    show "bit (((?a OR ?b) OR ?c) OR ?d) n \<longleftrightarrow> bit t n" if "n < LENGTH(32)"
      using assms [of n] that by (cases "n < 6"; cases "n < 12"; cases "n < 18") (auto simp: bit_simps)
  qed
  finally show ?thesis unfolding and_3F .
qed

section \<open>Encoded text\<close>

text \<open>The text that the loop and the padding produce together.\<close>

fun b64 :: "u8 list \<Rightarrow> u8 list" where
  "b64 [] = []"
| "b64 [a] = take 2 (b64_group a 0 0) @ [0x3D, 0x3D]"
| "b64 [a, b] = take 3 (b64_group a b 0) @ [0x3D]"
| "b64 (a # b # c # ds) = b64_group a b c @ b64 ds"

definition pad :: "nat \<Rightarrow> nat \<Rightarrow> u8 list \<Rightarrow> u8 list" where
  "pad n L out = fold (\<lambda>i out. out[L - 1 - i := 0x3D]) [0..<n] out"

lemma length_b64_group [simp]: "length (b64_group a b c) = 4"
  by (simp add: b64_group_def Let_def)

lemma length_enc_loop: "length (b64_enc_loop ds) = 4 * ((length ds + 2) div 3)"
proof (induction ds rule: b64_enc_loop.induct)
  case (4 a b c ds)
  moreover have "(length (a # b # c # ds) + 2) div 3 = Suc ((length ds + 2) div 3)" by simp
  ultimately show ?case by simp
qed simp_all

lemma length_pad [simp]: "length (pad n L out) = length out"
  unfolding pad_def by (induction n) simp_all

lemma pad_append:
  assumes "length g = 4" and "n \<le> length xs"
  shows "pad n (4 + length xs) (g @ xs) = g @ pad n (length xs) xs"
  using assms(2)
proof (induction n)
  case (Suc n)
  then have "\<not> 3 + length xs - n < 4" "3 + length xs - n - 4 = length xs - Suc n" by linarith+
  with Suc show ?case using assms(1) by (simp add: pad_def list_update_append)
qed (simp add: pad_def)

lemma mod3_cases: "g_modTable ! (n mod 3) \<le> 2"
proof -
  have "n mod 3 = 0 \<or> n mod 3 = 1 \<or> n mod 3 = 2" by linarith
  then show ?thesis by (auto simp: g_modTable_def)
qed

lemma pad_b64: "pad (g_modTable ! (length ds mod 3)) (length (b64_enc_loop ds)) (b64_enc_loop ds) = b64 ds"
proof (induction ds rule: b64_enc_loop.induct)
  case (2 a)
  have "g_modTable ! (length [a] mod 3) = 2" by (simp add: g_modTable_def)
  moreover have "[0..<2] = [0, 1 :: nat]" by (simp add: upt_rec)
  ultimately show ?case by (simp add: pad_def b64_group_def Let_def)
next
  case (3 a b)
  have "g_modTable ! (length [a, b] mod 3) = 1" by (simp add: g_modTable_def)
  then show ?case by (simp add: pad_def b64_group_def Let_def)
next
  case (4 a b c ds)
  let ?n = "g_modTable ! (length ds mod 3)"
  have n: "length (a # b # c # ds) mod 3 = length ds mod 3" by simp
  have le: "?n \<le> length (b64_enc_loop ds)"
  proof (cases ds)
    case (Cons d es)
    then have "4 \<le> length (b64_enc_loop ds)" unfolding length_enc_loop by simp
    with mod3_cases [of "length ds"] show ?thesis by linarith
  qed (simp add: g_modTable_def)
  have "pad ?n (4 + length (b64_enc_loop ds)) (b64_group a b c @ b64_enc_loop ds) = b64_group a b c @ b64 ds"
    unfolding pad_append [OF length_b64_group le] 4 ..
  then show ?case unfolding n by simp
qed (simp add: pad_def g_modTable_def)

lemma length_b64: "length (b64 ds) = 4 * ((length ds + 2) div 3)"
  unfolding pad_b64 [symmetric] by (simp add: length_enc_loop)

lemma encode_out:
  assumes "length ds < 2 ^ 31" and "length (b64 ds) \<le> unat mx"
  shows "utils_base64encode ds mx False = (SUCCESS_RETURN, Some (word_of_nat (length (b64 ds))), b64 ds)"
proof -
  let ?L = "length (b64_enc_loop ds)" and ?n = "word_of_nat (length ds) :: u32"
  have len: "length (b64 ds) = ?L" by (simp add: length_b64 length_enc_loop)
  have n: "unat ?n = length ds" using assms(1) by (simp add: unat_of_nat)
  have n2: "unat (?n + 2) = length ds + 2" using n assms(1) by (simp add: unat_word_ariths)
  have L: "?L < 2 ^ 32" unfolding length_enc_loop using assms(1) by simp
  have o: "unat (4 * ((?n + 2) div 3)) = ?L"
    using L n2 by (simp add: unat_word_ariths unat_div length_enc_loop)
  then have ol: "4 * ((?n + 2) div 3) = word_of_nat ?L" by (metis of_nat_unat ucast_id)
  have md: "unat (?n mod 3) = length ds mod 3" using n by (simp add: unat_mod)
  have idx: "unat (word_of_nat ?L - 1 - word_of_nat i :: u32) = ?L - 1 - i" if "i < g_modTable ! (length ds mod 3)" for i
  proof -
    have "?L \<noteq> 0" using that unfolding length_enc_loop by (cases ds) (auto simp: g_modTable_def)
    then have "4 \<le> ?L" unfolding length_enc_loop by presburger
    then have "Suc i \<le> ?L" using that mod3_cases [of "length ds"] by linarith
    then have "(word_of_nat ?L - 1 - word_of_nat i :: u32) = word_of_nat (?L - 1 - i)" by (simp add: of_nat_diff)
    with L show ?thesis by (simp add: unat_of_nat)
  qed
  have "fold (\<lambda>i out. out[unat (word_of_nat ?L - 1 - word_of_nat i :: u32) := 0x3D])
      [0..<g_modTable ! (length ds mod 3)] (b64_enc_loop ds) = b64 ds"
    unfolding pad_b64 [symmetric] pad_def by (rule fold_cong) (simp_all add: idx)
  moreover have "\<not> mx < word_of_nat ?L" using assms(2) len L by (simp add: word_less_nat_alt unat_of_nat)
  ultimately show ?thesis by (simp add: utils_base64encode_def Let_def ol md len)
qed

section \<open>Decoding\<close>

lemma b64_group_triple:
  "b64_group a b c = map (\<lambda>k. g_encodingTable ! unat (drop_bit k (triple_of a b c) AND 0x3F)) [18, 12, 6, 0]"
  by (simp add: b64_group_def Let_def triple_of_def)

lemma group_triple:
  assumes "b64_group a b c = [e0, e1, e2, e3]"
  shows "push_bit 18 (sextet e0) + push_bit 12 (sextet e1) + push_bit 6 (sextet e2) + sextet e3 = triple_of a b c"
  using assms sextets_join [of "triple_of a b c", OF triple_of_bits]
  by (auto simp: b64_group_triple sextet_low6)

lemma triple_low: "triple_of a b 0 AND 0x3F = 0" "drop_bit 6 (triple_of a 0 0) AND 0x3F = 0"
  unfolding triple_of_or and_3F by (rule bit_word_eqI, auto simp: bit_simps dest: bit_imp_le_length)+

lemma group_triple_pad:
  "b64_group a b 0 = [e0, e1, e2, e3] \<Longrightarrow>
    push_bit 18 (sextet e0) + push_bit 12 (sextet e1) + push_bit 6 (sextet e2) = triple_of a b 0"
  "b64_group a 0 0 = [e0, e1, e2, e3] \<Longrightarrow>
    push_bit 18 (sextet e0) + push_bit 12 (sextet e1) = triple_of a 0 0"
proof -
  assume g: "b64_group a b 0 = [e0, e1, e2, e3]"
  then have "sextet e3 = 0" using triple_low(1) [of a b] sextet_enc [of 0]
    by (auto simp: b64_group_triple sextet_low6)
  with group_triple [OF g]
  show "push_bit 18 (sextet e0) + push_bit 12 (sextet e1) + push_bit 6 (sextet e2) = triple_of a b 0" by simp
next
  assume g: "b64_group a 0 0 = [e0, e1, e2, e3]"
  then have "sextet e3 = 0" "sextet e2 = 0" using triple_low(1) [of a 0] triple_low(2) [of a] sextet_enc [of 0]
    by (auto simp: b64_group_triple sextet_low6)
  with group_triple [OF g] show "push_bit 18 (sextet e0) + push_bit 12 (sextet e1) = triple_of a 0 0" by simp
qed

lemma sextet_pad: "sextet 0x3D = 0"
  by (simp add: sextet_def)

lemma put_byte_iff: "length out \<le> unat n \<Longrightarrow> put_byte n x out = (if length out < unat n then out @ [x] else out)"
proof -
  assume "length out \<le> unat n"
  moreover have "unat n < 2 ^ 32" using unsigned_less [of n] by simp
  ultimately have "length out < 2 ^ 32" by linarith
  then show ?thesis by (simp add: put_byte_def word_less_nat_alt unat_of_nat)
qed

lemma group_cases:
  obtains e0 e1 e2 e3 where "b64_group a b c = [e0, e1, e2, e3]"
  by (simp add: b64_group_def Let_def)

lemma dec_b64: "unat n = length out + length ds \<Longrightarrow> b64_dec_loop n (b64 ds) out = out @ ds"
proof (induction ds arbitrary: out rule: b64.induct)
  case (2 a)
  obtain e0 e1 e2 e3 where g: "b64_group a 0 0 = [e0, e1, e2, e3]" by (rule group_cases)
  with 2 show ?case by (simp add: Let_def sextet_pad group_triple_pad(2) [OF g] triple_bytes put_byte_iff)
next
  case (3 a b)
  obtain e0 e1 e2 e3 where g: "b64_group a b 0 = [e0, e1, e2, e3]" by (rule group_cases)
  with 3 show ?case by (simp add: Let_def sextet_pad group_triple_pad(1) [OF g] triple_bytes put_byte_iff)
next
  case (4 a b c ds)
  obtain e0 e1 e2 e3 where g: "b64_group a b c = [e0, e1, e2, e3]" by (rule group_cases)
  with 4 show ?case by (simp add: Let_def group_triple [OF g] triple_bytes put_byte_iff)
qed simp

section \<open>Round trip and streaming\<close>

lemma b64_last:
  assumes "ds \<noteq> []"
  shows "\<exists>xs p q. b64 ds = xs @ [p, q] \<and> (q = 0x3D \<longleftrightarrow> length ds mod 3 \<noteq> 0) \<and> (p = 0x3D \<longleftrightarrow> length ds mod 3 = 1)"
  using assms
proof (induction ds rule: b64.induct)
  case (2 a)
  then show ?case by (intro exI [of _ "take 2 (b64_group a 0 0)"]) simp
next
  case (3 a b)
  then show ?case by (auto simp: b64_group_triple sextet_low6 intro!: exI [of _ "take 2 (b64_group a b 0)"])
next
  case (4 a b c ds)
  show ?case
  proof (cases ds)
    case Nil
    obtain e0 e1 e2 e3 where g: "b64_group a b c = [e0, e1, e2, e3]" by (rule group_cases)
    then have "e2 \<noteq> 0x3D" "e3 \<noteq> 0x3D" by (auto simp: b64_group_triple sextet_low6)
    with Nil g show ?thesis by (intro exI [of _ "[e0, e1]"]) simp
  next
    case (Cons d es)
    then obtain xs p q where "b64 ds = xs @ [p, q]" "q = 0x3D \<longleftrightarrow> length ds mod 3 \<noteq> 0" "p = 0x3D \<longleftrightarrow> length ds mod 3 = 1"
      using 4 by auto
    then show ?thesis by (intro exI [of _ "b64_group a b c @ xs"] exI [of _ p] exI [of _ q]) simp
  qed
qed simp

text \<open>
  C9: decoding what \<open>utils_base64encode\<close> wrote gives back the data, with its exact length, for every
  non-empty input below 2 GiB and output areas that are large enough.
\<close>

theorem utils_base64_roundtrip:
  assumes "dat \<noteq> []" and "length dat < 2 ^ 31"
    and "4 * ((length dat + 2) div 3) \<le> unat mx" and "length dat \<le> unat mx'"
  shows "\<exists>n txt. utils_base64encode dat mx False = (SUCCESS_RETURN, Some n, txt) \<and>
    utils_base64decode txt mx' = Some (SUCCESS_RETURN, Some (word_of_nat (length dat)), dat)"
proof -
  obtain xs p q where x: "b64 dat = xs @ [p, q]" and q: "q = 0x3D \<longleftrightarrow> length dat mod 3 \<noteq> 0"
    and p: "p = 0x3D \<longleftrightarrow> length dat mod 3 = 1" using b64_last [OF assms(1)] by blast
  define k where "k = (length dat + 2) div 3"
  let ?L = "word_of_nat (length (b64 dat)) :: u32"
  let ?pad = "(if q = 0x3D then 1 else 0) + (if p = 0x3D then 1 else 0)"
  have k: "4 * k < 2 ^ 32" "0 < k" using assms(1,2) by (auto simp: k_def Suc_le_eq div_greater_zero_iff)
  have L: "length (b64 dat) = 4 * k" unfolding k_def by (rule length_b64)
  have uL: "unat ?L = 4 * k" unfolding L using k(1) unfolding unat_of_nat by simp
  have u: "unat (?L - 1) = length (b64 dat) - 1" "unat (?L - 2) = length (b64 dat) - 2"
    using uL k L by (simp_all add: unat_sub word_le_nat_alt)
  have ends: "rd_byte (b64 dat) (?L - 1) = Some q" "rd_byte (b64 dat) (?L - 2) = Some p"
    unfolding rd_byte_def u using x by (simp_all add: nth_append)
  have m: "?L mod 4 = 0" using uL by (simp add: word_unat_eq_iff unat_mod)
  have "unat (?L div 4) = k" using uL by (simp add: unat_div)
  then have "?L div 4 * 3 = word_of_nat k * 3" by (metis of_nat_unat ucast_id)
  moreover have len: "length dat = 3 * k - ?pad" "?pad \<le> 3 * k" using p q k(2) unfolding k_def by (auto; presburger)+
  ultimately have n: "?L div 4 * 3 - (if q = 0x3D then 1 else 0) - (if p = 0x3D then 1 else 0) = word_of_nat (length dat)"
    by (auto simp: of_nat_diff)
  have un: "unat (word_of_nat (length dat) :: u32) = length dat" using assms(2) unfolding unat_of_nat by simp
  have "utils_base64decode (b64 dat) mx' = Some (SUCCESS_RETURN, Some (word_of_nat (length dat)), dat)"
    using m ends n un assms(4) dec_b64 [of "word_of_nat (length dat)" "[]" dat]
    by (cases "p = 0x3D"; cases "q = 0x3D") (simp_all add: utils_base64decode_def Let_def word_less_nat_alt)
  then show ?thesis using encode_out [OF assms(2), of mx] assms(3) length_b64 by auto
qed

theorem utils_base64_roundtrip_witness:
  "\<exists>n txt. utils_base64encode [0x62, 0x6C, 0x36, 0x30] 100 False = (SUCCESS_RETURN, Some n, txt) \<and>
    utils_base64decode txt 100 = Some (SUCCESS_RETURN, Some (word_of_nat 4), [0x62, 0x6C, 0x36, 0x30])"
  using utils_base64_roundtrip [of "[0x62, 0x6C, 0x36, 0x30]" 100 100] by simp

definition list_reader :: "u8 list \<Rightarrow> u8 option \<times> u8 list" where
  "list_reader xs = (case xs of [] \<Rightarrow> (None, []) | x # xs \<Rightarrow> (Some x, xs))"

lemma stream_loop_b64:
  "\<exists>gs. b64_stream_loop list_reader ds (-1) out = Some (out @ gs) \<and> concat gs = b64 ds \<and> (\<forall>g\<in>set gs. length g = 4)"
proof (induction ds arbitrary: out rule: b64.induct)
  case (4 a b c ds)
  obtain gs where "b64_stream_loop list_reader ds (-1) (out @ [b64_group a b c]) = Some (out @ b64_group a b c # gs)"
    "concat gs = b64 ds" "\<forall>g\<in>set gs. length g = 4" using 4 [of "out @ [b64_group a b c]"] by auto
  then show ?case
    by (intro exI [of _ "b64_group a b c # gs"])
      (subst b64_stream_loop.simps, simp add: stream_read_def list_reader_def b64_group_def Let_def)
qed (subst b64_stream_loop.simps, auto simp: stream_read_def list_reader_def b64_group_def Let_def g_modTable_def numeral_eq_Suc)+

text \<open>
  C18: the streaming encoder, reading the same bytes through its callback, terminates, calls
  \<open>write_data\<close> only with groups of four characters, and writes in total exactly the text the block
  encoder stores.
\<close>

theorem utils_base64_stream_equals_block:
  assumes "length dat < 2 ^ 31" and "4 * ((length dat + 2) div 3) \<le> unat mx"
  shows "\<exists>gs. utils_base64_encode_stream list_reader dat = Some gs \<and> (\<forall>g\<in>set gs. length g = 4) \<and>
    utils_base64encode dat mx False = (SUCCESS_RETURN, Some (word_of_nat (length (concat gs))), concat gs)"
  using stream_loop_b64 [of dat "[]"] encode_out [OF assms(1), of mx] assms(2) length_b64 [of dat]
  by (auto simp: utils_base64_encode_stream_def)

theorem utils_base64_stream_equals_block_witness:
  "\<exists>gs. utils_base64_encode_stream list_reader [1, 2, 3, 4] = Some gs \<and> (\<forall>g\<in>set gs. length g = 4) \<and>
    utils_base64encode [1, 2, 3, 4] 8 False = (SUCCESS_RETURN, Some (word_of_nat (length (concat gs))), concat gs)"
  using utils_base64_stream_equals_block [of "[1, 2, 3, 4]" 8] by simp

text \<open>
  C25: \<open>utils_base64decode\<close> reads outside its input exactly when the input is empty (the padding test
  looks at \<open>data[inputLength - 1]\<close> before any length check); every length that is not a multiple of
  four is rejected with nothing written.
\<close>

theorem utils_base64decode_guards:
  assumes "length txt < 2 ^ 32"
  shows "(utils_base64decode txt mx = None \<longleftrightarrow> txt = []) \<and>
    (length txt mod 4 \<noteq> 0 \<longrightarrow> utils_base64decode txt mx = Some (FAIL_RETURN, None, []))"
proof -
  let ?L = "word_of_nat (length txt) :: u32"
  have u: "unat ?L = length txt" using assms unfolding unat_of_nat by simp
  then have m: "?L mod 4 = 0 \<longleftrightarrow> length txt mod 4 = 0" by (simp add: word_unat_eq_iff unat_mod)
  have "txt \<noteq> [] \<Longrightarrow> length txt mod 4 = 0 \<Longrightarrow> 4 \<le> length txt" by (rule ccontr) (simp add: not_le)
  then have "txt \<noteq> [] \<Longrightarrow> length txt mod 4 = 0 \<Longrightarrow> unat (?L - 1) < length txt \<and> unat (?L - 2) < length txt"
    using u by (simp add: unat_sub word_le_nat_alt)
  then show ?thesis using m by (cases "txt = []") (auto simp: utils_base64decode_def rd_byte_def Let_def)
qed

theorem utils_base64decode_guards_witness:
  "utils_base64decode [] 10 = None \<and> utils_base64decode [0x41, 0x41, 0x41] 10 = Some (FAIL_RETURN, None, [])"
  using utils_base64decode_guards [of "[]" 10] utils_base64decode_guards [of "[0x41, 0x41, 0x41]" 10] by simp

end
