(* ===== verification/Utils_Memp.thy ===== *)
theory Utils_Memp
  imports Utils_List
begin

unbundle bit_operations_syntax

text \<open>
  The fixed-size block pool of \<open>utils/src/utils_memp.c\<close>. Every block starts with a one-word header
  that links the free blocks and holds \<open>UTILS_MEMP_ALLOCED_NODE_PATTERN\<close> while the block is handed
  out. The header words are a heap from addresses to words, \<open>NULL\<close> for the word 0; sizes keep
  the widths of the source, so the truncation to 16 bits of the padded size is part of the model.
  \<open>None\<close> is the division by a zero \<open>padded_node_size\<close>.
\<close>

section \<open>Model\<close>

definition UTILS_MEMP_ALLOCED_NODE_PATTERN :: nat where
  "UTILS_MEMP_ALLOCED_NODE_PATTERN = 0xA5"

definition MEM_ALIGN :: "u32 \<Rightarrow> u32 \<Rightarrow> u32" where
  "MEM_ALIGN addr align = (addr + align - 1) AND NOT (align - 1)"

definition sizeof_memp_node :: nat where "sizeof_memp_node = 4"
definition sizeof_memp_pool :: nat where "sizeof_memp_pool = 32"

record utils_memp_pool =
  node_size :: u32
  pool_cap :: u32
  pool_size :: u32
  align_req :: u8
  padded_node_size :: u32
  first_node :: addr
  last_node :: ptr
  pool_free :: ptr

fun memp_thread :: "nat \<Rightarrow> addr \<Rightarrow> nat \<Rightarrow> hdrs \<Rightarrow> ptr \<Rightarrow> hdrs \<times> ptr" where
  "memp_thread 0 node padded h pool_mem = (h, pool_mem)"
| "memp_thread (Suc n) node padded h pool_mem =
     memp_thread n (node + padded) padded (h(node := pool_mem)) (Some node)"

definition memp_align :: "u8 \<Rightarrow> u8" where
  "memp_align align = ucast (MEM_ALIGN (ucast align) 4)"

definition memp_padded :: "u16 \<Rightarrow> u8 \<Rightarrow> u16" where
  "memp_padded nsize align =
     ucast (MEM_ALIGN (ucast nsize + word_of_nat sizeof_memp_node) (ucast (memp_align align)))"

definition memp_size :: "u16 \<Rightarrow> u16 \<Rightarrow> u8 \<Rightarrow> u32" where
  "memp_size nsize cap align =
     MEM_ALIGN (word_of_nat sizeof_memp_pool) (ucast (memp_align align)) +
       ucast (memp_padded nsize align) * ucast cap"

definition utils_memp_init_alloced :: "hdrs \<Rightarrow> addr \<Rightarrow> u16 \<Rightarrow> u16 \<Rightarrow> u8 \<Rightarrow> hdrs \<times> utils_memp_pool" where
  "utils_memp_init_alloced h npool nsize cap align =
     (let padded = ucast (memp_padded nsize align) :: u32;
          size = memp_size nsize cap align;
          node = npool + unat (size - padded * ucast cap);
          (h, pool_mem) = memp_thread (unat cap) node (unat padded) h NULL
      in (h, \<lparr>node_size = ucast nsize, pool_cap = ucast cap, pool_size = 0, align_req = memp_align align,
              padded_node_size = padded, first_node = node, last_node = pool_mem, pool_free = pool_mem\<rparr>))"

text \<open>\<open>malloc\<close> is the value of \<open>pvPortMalloc\<close> for the computed size.\<close>

definition utils_memp_init ::
  "hdrs \<Rightarrow> (u32 \<Rightarrow> ptr) \<Rightarrow> u16 \<Rightarrow> u16 \<Rightarrow> u8 \<Rightarrow> int \<times> hdrs \<times> utils_memp_pool option" where
  "utils_memp_init h malloc nsize cap align =
     (case malloc (memp_size nsize cap align) of
        None \<Rightarrow> (-1, h, None)
      | Some npool \<Rightarrow> let (h, p) = utils_memp_init_alloced h npool nsize cap align in (0, h, Some p))"

text \<open>The second component is the pointer passed to \<open>vPortFree\<close>.\<close>

definition utils_memp_deinit :: "ptr \<Rightarrow> int \<times> ptr" where
  "utils_memp_deinit pool = (case pool of None \<Rightarrow> (-1, NULL) | Some a \<Rightarrow> (0, Some a))"

definition utils_memp_malloc ::
  "hdrs \<Rightarrow> utils_memp_pool option \<Rightarrow> ptr \<times> hdrs \<times> utils_memp_pool option" where
  "utils_memp_malloc h pool = (case pool of
      None \<Rightarrow> (NULL, h, pool)
    | Some p \<Rightarrow>
        if pool_size p = pool_cap p then (NULL, h, pool)
        else case pool_free p of
          Some node \<Rightarrow>
            (Some (node + sizeof_memp_node), h(node := Some UTILS_MEMP_ALLOCED_NODE_PATTERN),
             Some (p\<lparr>pool_free := h node, pool_size := pool_size p + 1\<rparr>))
        | None \<Rightarrow> (NULL, h, pool))"

definition utils_memp_free ::
  "hdrs \<Rightarrow> utils_memp_pool option \<Rightarrow> addr \<Rightarrow> (int \<times> hdrs \<times> utils_memp_pool option) option" where
  "utils_memp_free h pool ptr0 =
     (let node = (ptr0 + 2 ^ 32 - sizeof_memp_node) mod 2 ^ 32 in
      case pool of
        None \<Rightarrow> Some (-1, h, pool)
      | Some p \<Rightarrow>
          if node = 0 then Some (-1, h, pool)
          else if pool_size p = 0 then Some (-1, h, pool)
          else if \<not> (first_node p \<le> node \<and> node \<le> (case last_node p of None \<Rightarrow> 0 | Some l \<Rightarrow> l))
          then Some (-1, h, pool)
          else if padded_node_size p = 0 then None
          else if (node - first_node p) mod unat (padded_node_size p) \<noteq> 0 then Some (-1, h, pool)
          else if h node \<noteq> Some UTILS_MEMP_ALLOCED_NODE_PATTERN then Some (-1, h, pool)
          else Some (0, h(node := pool_free p),
                     Some (p\<lparr>pool_free := Some node, pool_size := pool_size p - 1\<rparr>)))"

section \<open>Layout\<close>

lemma and_not_mask: "unat (x AND NOT m) = unat x - unat (x AND m)" for x m :: u32
proof -
  have "(x AND NOT m) AND (x AND m) = 0" "(x AND NOT m) OR (x AND m) = x" by (auto intro!: bit_eqI simp: bit_simps)
  then have "(x AND NOT m) + (x AND m) = x" by (simp add: disjunctive_add_eq_or)
  then have "x AND NOT m = x - (x AND m)" by (simp add: eq_diff_eq)
  moreover have "x AND m \<le> x" by (rule word_and_le2)
  ultimately show ?thesis by (simp add: unat_sub)
qed

lemma MEM_ALIGN_bounds:
  assumes "unat a + unat al \<le> 2 ^ 32" "0 < unat al"
  shows "unat a \<le> unat (MEM_ALIGN a al) \<and> unat (MEM_ALIGN a al) < unat a + unat al"
proof -
  have al: "unat (al - 1) = unat al - 1" using assms(2) by (simp add: unat_minus_one unat_gt_0)
  then have "unat a + unat (al - 1) < 2 ^ LENGTH(32)" using assms by simp
  then have "unat (a + (al - 1)) = unat a + unat (al - 1)" by (simp only: unat_add_lem)
  then have s: "unat (a + al - 1) = unat a + (unat al - 1)" using al by (simp add: add_diff_eq)
  have "unat ((a + al - 1) AND (al - 1)) \<le> unat (al - 1)" using word_and_le1 by (simp add: word_le_nat_alt [symmetric])
  then show ?thesis using s al assms(2) unfolding MEM_ALIGN_def and_not_mask by linarith
qed

lemma memp_align_bounds:
  assumes "0 < unat a" "unat a \<le> 252"
  shows "unat a \<le> unat (memp_align a) \<and> unat (memp_align a) < 256"
proof -
  have "unat a \<le> unat (MEM_ALIGN (ucast a) 4)" "unat (MEM_ALIGN (ucast a) 4) < unat a + 4"
    using MEM_ALIGN_bounds [of "ucast a" 4] assms(2) by (simp_all add: unat_ucast_up)
  then show ?thesis using assms(2) by (simp add: memp_align_def unat_ucast_down)
qed

lemma memp_padded_bounds:
  assumes "0 < unat a" "unat a \<le> 252" "unat nsize \<le> 65276"
  shows "unat nsize + 4 \<le> unat (memp_padded nsize a)"
proof -
  have n: "unat (ucast nsize + word_of_nat sizeof_memp_node :: u32) = unat nsize + 4"
    using assms(3) by (simp add: sizeof_memp_node_def unat_word_ariths unat_ucast_up)
  have "unat nsize + 4 \<le> unat (MEM_ALIGN (ucast nsize + word_of_nat sizeof_memp_node) (ucast (memp_align a)))"
    "unat (MEM_ALIGN (ucast nsize + word_of_nat sizeof_memp_node) (ucast (memp_align a))) < unat nsize + 4 + 256"
    using MEM_ALIGN_bounds [of "ucast nsize + word_of_nat sizeof_memp_node" "ucast (memp_align a)"]
      memp_align_bounds [OF assms(1,2)] n assms by (simp_all add: unat_ucast_up)
  then show ?thesis using assms(3) by (simp add: memp_padded_def unat_ucast_down)
qed

definition memp_head :: "u8 \<Rightarrow> nat" where
  "memp_head a = unat (MEM_ALIGN (word_of_nat sizeof_memp_pool) (ucast (memp_align a)))"

lemma memp_size_layout:
  assumes "0 < unat a" "unat a \<le> 252"
  shows "unat (memp_size nsize cap a) = memp_head a + unat (memp_padded nsize a) * unat cap"
    "32 \<le> memp_head a"
proof -
  let ?P = "ucast (memp_padded nsize a) :: u32" and ?C = "ucast cap :: u32"
  have h: "32 \<le> memp_head a" "memp_head a < 32 + 256"
    using MEM_ALIGN_bounds [of "word_of_nat sizeof_memp_pool" "ucast (memp_align a)"] memp_align_bounds [OF assms] assms(1)
    by (simp_all add: memp_head_def sizeof_memp_pool_def unat_ucast_up)
  have "unat (memp_padded nsize a) \<le> 65535" "unat cap \<le> 65535"
    using unsigned_less [of "memp_padded nsize a", where 'a = nat] unsigned_less [of cap, where 'a = nat] by simp_all
  then have m: "unat (memp_padded nsize a) * unat cap \<le> 65535 * 65535" by (rule mult_le_mono)
  then have "unat (?P * ?C) = unat (memp_padded nsize a) * unat cap"
    by (simp add: unat_word_ariths unat_ucast_up)
  then show "unat (memp_size nsize cap a) = memp_head a + unat (memp_padded nsize a) * unat cap"
    using m h unfolding memp_size_def memp_head_def by (simp add: unat_word_ariths)
  show "32 \<le> memp_head a" by (rule h)
qed

section \<open>Pool invariant\<close>

definition memp_nodes :: "utils_memp_pool \<Rightarrow> addr list" where
  "memp_nodes p = map (\<lambda>i. first_node p + i * unat (padded_node_size p)) [0..<unat (pool_cap p)]"

definition memp_ok :: "hdrs \<Rightarrow> utils_memp_pool \<Rightarrow> addr list \<Rightarrow> addr set \<Rightarrow> bool" where
  "memp_ok h p fl al \<longleftrightarrow>
     chain h (pool_free p) fl NULL \<and> set fl \<union> al = set (memp_nodes p) \<and> set fl \<inter> al = {} \<and>
     pool_size p = word_of_nat (card al) \<and> (\<forall>a\<in>al. h a = Some UTILS_MEMP_ALLOCED_NODE_PATTERN) \<and>
     0 < unat (padded_node_size p) \<and> UTILS_MEMP_ALLOCED_NODE_PATTERN \<notin> set (memp_nodes p) \<and> 0 < first_node p \<and>
     (\<forall>a\<in>set (memp_nodes p). a + sizeof_memp_node < 2 ^ 32) \<and>
     last_node p = (if memp_nodes p = [] then NULL else Some (last (memp_nodes p)))"

lemma memp_thread_chain:
  assumes "0 < pd" "chain h m xs NULL" "\<forall>x\<in>set xs. x < node"
  shows "\<exists>h' m'. memp_thread n node pd h m = (h', m') \<and>
    chain h' m' (rev (map (\<lambda>i. node + i * pd) [0..<n]) @ xs) NULL"
  using assms
proof (induction n arbitrary: node h m xs)
  case (Suc n)
  have "chain (h(node := m)) (Some node) (node # xs) NULL" using Suc.prems by auto
  moreover have "\<forall>x\<in>set (node # xs). x < node + pd" using Suc.prems by auto
  ultimately obtain h' m' where "memp_thread n (node + pd) pd (h(node := m)) (Some node) = (h', m')"
    "chain h' m' (rev (map (\<lambda>i. node + pd + i * pd) [0..<n]) @ node # xs) NULL"
    using Suc.IH [OF Suc.prems(1)] by blast
  moreover have "map (\<lambda>i. node + i * pd) [0..<Suc n] = node # map (\<lambda>i. node + pd + i * pd) [0..<n]"
    by (simp add: map_upt_Suc del: upt_Suc)
  ultimately show ?case by (simp del: upt_Suc)
qed simp

lemma memp_nodes_distinct: "0 < unat (padded_node_size p) \<Longrightarrow> distinct (memp_nodes p)"
  by (auto simp: memp_nodes_def distinct_map inj_on_def)

lemma memp_node_iff:
  assumes "0 < unat (padded_node_size p)"
  shows "a \<in> set (memp_nodes p) \<longleftrightarrow> memp_nodes p \<noteq> [] \<and> first_node p \<le> a \<and> a \<le> last (memp_nodes p) \<and>
    (a - first_node p) mod unat (padded_node_size p) = 0"
proof
  let ?P = "unat (padded_node_size p)" and ?n = "unat (pool_cap p)"
  assume a: "a \<in> set (memp_nodes p)"
  then obtain i where i: "i < ?n" "a = first_node p + i * ?P" by (auto simp: memp_nodes_def)
  then have l: "last (memp_nodes p) = first_node p + (?n - 1) * ?P" by (simp add: memp_nodes_def last_map)
  have "i * ?P \<le> (?n - 1) * ?P" using i by (intro mult_le_mono1) simp
  with i a l show "memp_nodes p \<noteq> [] \<and> first_node p \<le> a \<and> a \<le> last (memp_nodes p) \<and> (a - first_node p) mod ?P = 0"
    by auto
next
  let ?P = "unat (padded_node_size p)" and ?n = "unat (pool_cap p)"
  assume a: "memp_nodes p \<noteq> [] \<and> first_node p \<le> a \<and> a \<le> last (memp_nodes p) \<and> (a - first_node p) mod ?P = 0"
  then have n: "0 < ?n" by (auto simp: memp_nodes_def)
  then have l: "last (memp_nodes p) = first_node p + (?n - 1) * ?P" by (simp add: memp_nodes_def last_map)
  from a obtain i where "a - first_node p = ?P * i" by (auto elim: dvdE simp: mod_eq_0_iff_dvd)
  then have i: "a = first_node p + i * ?P" using a by (metis le_add_diff_inverse mult.commute)
  then have "i * ?P \<le> (?n - 1) * ?P" using a l by simp
  then have "i < ?n" using assms n by auto
  then show "a \<in> set (memp_nodes p)" using i by (auto simp: memp_nodes_def)
qed

lemma memp_card:
  assumes "memp_ok h p fl al"
  shows "card al + length fl = unat (pool_cap p)" "finite al"
proof -
  have d: "distinct fl" using assms by (auto simp: memp_ok_def dest: chain_distinct)
  show fin: "finite al" using assms by (metis List.finite_set finite_Un memp_ok_def)
  have "card (set fl \<union> al) = card (set fl) + card al"
    using assms fin by (intro card_Un_disjoint) (auto simp: memp_ok_def)
  moreover have "card (set (memp_nodes p)) = unat (pool_cap p)"
    using assms by (subst distinct_card [OF memp_nodes_distinct]) (auto simp: memp_ok_def memp_nodes_def)
  ultimately show "card al + length fl = unat (pool_cap p)"
    using assms d by (simp add: memp_ok_def distinct_card)
qed

lemma memp_full_iff:
  assumes "memp_ok h p fl al"
  shows "pool_size p = pool_cap p \<longleftrightarrow> fl = []" "pool_size p = 0 \<longleftrightarrow> al = {}"
proof -
  note c = memp_card [OF assms]
  have "card al < 2 ^ 32" using c(1) unsigned_less [of "pool_cap p", where 'a = nat] by simp
  then have u: "unat (pool_size p) = card al" using assms by (simp add: memp_ok_def unat_of_nat)
  then show "pool_size p = pool_cap p \<longleftrightarrow> fl = []" using c(1) by (auto simp: word_unat_eq_iff)
  show "pool_size p = 0 \<longleftrightarrow> al = {}" using u c(2) by (simp add: word_unat_eq_iff)
qed

lemma memp_malloc_ok:
  assumes "memp_ok h p fl al"
  shows "fl = [] \<Longrightarrow> utils_memp_malloc h (Some p) = (NULL, h, Some p)"
    "fl = a # fl' \<Longrightarrow> \<exists>h' p'. utils_memp_malloc h (Some p) = (Some (a + sizeof_memp_node), h', Some p') \<and>
      memp_ok h' p' fl' (insert a al) \<and> memp_nodes p' = memp_nodes p \<and> padded_node_size p' = padded_node_size p \<and>
      first_node p' = first_node p \<and> pool_cap p' = pool_cap p"
proof -
  show "fl = [] \<Longrightarrow> utils_memp_malloc h (Some p) = (NULL, h, Some p)"
    using memp_full_iff [OF assms] by (simp add: utils_memp_malloc_def)
  assume fl: "fl = a # fl'"
  have a: "a \<notin> set fl'" "a \<notin> al" "pool_free p = Some a" "pool_size p \<noteq> pool_cap p"
    using assms fl chain_distinct [of h "pool_free p" fl] memp_full_iff [OF assms] by (auto simp: memp_ok_def)
  show "\<exists>h' p'. utils_memp_malloc h (Some p) = (Some (a + sizeof_memp_node), h', Some p') \<and>
      memp_ok h' p' fl' (insert a al) \<and> memp_nodes p' = memp_nodes p \<and> padded_node_size p' = padded_node_size p \<and>
      first_node p' = first_node p \<and> pool_cap p' = pool_cap p"
    using a assms fl memp_card [OF assms]
    by (auto simp: utils_memp_malloc_def memp_ok_def memp_nodes_def)
qed

lemma chain_next_in: "chain h p xs NULL \<Longrightarrow> a \<in> set xs \<Longrightarrow> h a = NULL \<or> (\<exists>b\<in>set xs. h a = Some b)"
proof (induction xs arbitrary: p)
  case (Cons x xs)
  then show ?case by (cases xs) auto
qed simp

definition memp_offset :: "addr \<Rightarrow> addr" where
  "memp_offset q = (q + 2 ^ 32 - sizeof_memp_node) mod 2 ^ 32"

lemma memp_offset_node: "a + sizeof_memp_node < 2 ^ 32 \<Longrightarrow> memp_offset (a + sizeof_memp_node) = a"
  by (simp add: memp_offset_def sizeof_memp_node_def)

lemma memp_offset_inv: "q < 2 ^ 32 \<Longrightarrow> memp_offset q + sizeof_memp_node < 2 ^ 32 \<Longrightarrow> q = memp_offset q + sizeof_memp_node"
proof -
  assume q: "q < 2 ^ 32" "memp_offset q + sizeof_memp_node < 2 ^ 32"
  have "memp_offset q = (if q < 4 then q + 2 ^ 32 - 4 else q - 4)"
  proof (cases "q < 4")
    case False
    then have "q + 2 ^ 32 - 4 = (q - 4) + 2 ^ 32" by simp
    then have "memp_offset q = (q - 4) mod 2 ^ 32" unfolding memp_offset_def sizeof_memp_node_def by (metis mod_add_self2)
    then show ?thesis using q(1) False by simp
  qed (simp add: memp_offset_def sizeof_memp_node_def)
  with q show "q = memp_offset q + sizeof_memp_node" by (simp add: sizeof_memp_node_def split: if_splits)
qed

lemma memp_free_guard:
  assumes "memp_ok h p fl al"
  shows "utils_memp_free h (Some p) q =
    (if memp_offset q \<in> al
     then Some (0, h(memp_offset q := pool_free p),
                Some (p\<lparr>pool_free := Some (memp_offset q), pool_size := pool_size p - 1\<rparr>))
     else Some (-1, h, Some p))"
proof -
  let ?n = "memp_offset q"
  have P: "0 < unat (padded_node_size p)" and nodes: "set fl \<union> al = set (memp_nodes p)"
    and last: "last_node p = (if memp_nodes p = [] then NULL else Some (last (memp_nodes p)))"
    and f: "0 < first_node p" using assms by (auto simp: memp_ok_def)
  then have P0: "padded_node_size p \<noteq> 0" by auto
  have al: "?n \<in> al \<Longrightarrow> pool_size p \<noteq> 0 \<and> h ?n = Some UTILS_MEMP_ALLOCED_NODE_PATTERN"
    using memp_full_iff(2) [OF assms] assms by (auto simp: memp_ok_def)
  have fl: "?n \<in> set fl \<Longrightarrow> h ?n \<noteq> Some UTILS_MEMP_ALLOCED_NODE_PATTERN"
    using chain_next_in [of h "pool_free p" fl ?n] assms by (auto simp: memp_ok_def)
  have in_range: "?n \<in> set (memp_nodes p) \<longleftrightarrow>
      first_node p \<le> ?n \<and> ?n \<le> (case last_node p of None \<Rightarrow> 0 | Some l \<Rightarrow> l) \<and>
      (?n - first_node p) mod unat (padded_node_size p) = 0"
    using memp_node_iff [OF P, of ?n] last f by auto
  show ?thesis
  proof (cases "?n \<in> set (memp_nodes p)")
    case False
    then have "?n \<notin> al" using nodes by auto
    with False in_range P0 show ?thesis unfolding utils_memp_free_def Let_def memp_offset_def [symmetric] by simp
  next
    case True
    then have "(?n \<notin> al) = (?n \<in> set fl)" using nodes assms by (auto simp: memp_ok_def)
    moreover have "?n \<noteq> 0" using True in_range f by linarith
    ultimately show ?thesis using True in_range P0 al fl
      unfolding utils_memp_free_def Let_def memp_offset_def [symmetric] by (cases "?n \<in> al") simp_all
  qed
qed

lemma memp_free_ok:
  assumes "memp_ok h p fl al" "a \<in> al"
  shows "memp_ok (h(a := pool_free p)) (p\<lparr>pool_free := Some a, pool_size := pool_size p - 1\<rparr>) (a # fl) (al - {a})"
proof -
  have "0 < card al" using assms memp_card(2) [OF assms(1)] by (auto simp: card_gt_0_iff)
  then have "word_of_nat (card (al - {a})) = (word_of_nat (card al) :: u32) - 1"
    using assms(2) by (simp add: of_nat_diff)
  moreover have "a \<notin> set fl" using assms by (auto simp: memp_ok_def)
  ultimately show ?thesis using assms by (auto simp: memp_ok_def memp_nodes_def)
qed

lemma memp_init_ok:
  assumes "0 < unat a" "unat a \<le> 252" "unat nsize \<le> 65276" "0xA5 < blk" "blk + unat (memp_size nsize cap a) < 2 ^ 32"
  shows "\<exists>h' p fl. utils_memp_init_alloced h blk nsize cap a = (h', p) \<and> memp_ok h' p fl {} \<and>
    first_node p = blk + memp_head a \<and> padded_node_size p = ucast (memp_padded nsize a) \<and> pool_cap p = ucast cap"
proof -
  let ?P = "unat (memp_padded nsize a)"
  note sz = memp_size_layout(1) [OF assms(1,2), of nsize cap] memp_size_layout(2) [OF assms(1,2)] and pd = memp_padded_bounds [OF assms(1-3)]
  have node: "unat (memp_size nsize cap a - ucast (memp_padded nsize a) * ucast cap) = memp_head a"
    by (simp add: memp_size_def memp_head_def)
  obtain h' m' where t: "memp_thread (unat cap) (blk + memp_head a) ?P h NULL = (h', m')"
    and c: "chain h' m' (rev (map (\<lambda>i. blk + memp_head a + i * ?P) [0..<unat cap])) NULL"
    using memp_thread_chain [of ?P h NULL "[]" "blk + memp_head a" "unat cap"] pd by auto
  have b: "blk + memp_head a + i * ?P + 4 < 2 ^ 32" if "i < unat cap" for i
  proof -
    have "(i + 1) * ?P \<le> unat cap * ?P" using that by (intro mult_le_mono1) simp
    then show ?thesis using sz assms(5) pd by (simp add: algebra_simps)
  qed
  define q where "q = snd (utils_memp_init_alloced h blk nsize cap a)"
  have p: "first_node q = blk + memp_head a" "padded_node_size q = ucast (memp_padded nsize a)"
    "pool_cap q = ucast cap" "pool_size q = 0" "last_node q = m'" "pool_free q = m'"
    and i: "utils_memp_init_alloced h blk nsize cap a = (h', q)"
    using t by (simp_all add: q_def utils_memp_init_alloced_def node unat_ucast_up)
  have n: "memp_nodes q = map (\<lambda>i. blk + memp_head a + i * ?P) [0..<unat cap]"
    by (simp add: memp_nodes_def p unat_ucast_up)
  have l: "m' = (if memp_nodes q = [] then NULL else Some (last (memp_nodes q)))"
    using c n by (cases "unat cap") auto
  have "UTILS_MEMP_ALLOCED_NODE_PATTERN \<notin> set (memp_nodes q)" "\<forall>a\<in>set (memp_nodes q). a + sizeof_memp_node < 2 ^ 32"
    using assms(4) b unfolding n by (auto simp: UTILS_MEMP_ALLOCED_NODE_PATTERN_def sizeof_memp_node_def add.assoc)
  then have "memp_ok h' q (rev (memp_nodes q)) {}"
    using c pd assms(4) l unfolding memp_ok_def p n by (simp add: unat_ucast_up)
  with p i show ?thesis by blast
qed

section \<open>Contract\<close>

text \<open>
  The states a pool reaches: created over a block of memory, then any sequence of allocations and
  of calls of \<open>utils_memp_free\<close> with any 32-bit value as pointer. The third component is the set of
  pointers handed out and not yet given back.
\<close>

inductive memp_reach :: "addr \<Rightarrow> u16 \<Rightarrow> u16 \<Rightarrow> u8 \<Rightarrow> hdrs \<Rightarrow> utils_memp_pool \<Rightarrow> addr set \<Rightarrow> bool"
  for blk nsize cap align where
  create: "utils_memp_init_alloced h0 blk nsize cap align = (h, p) \<Longrightarrow> memp_reach blk nsize cap align h p {}"
| malloc: "memp_reach blk nsize cap align h p out \<Longrightarrow> utils_memp_malloc h (Some p) = (r, h', Some p') \<Longrightarrow>
    memp_reach blk nsize cap align h' p' (case r of None \<Rightarrow> out | Some q \<Rightarrow> insert q out)"
| free: "memp_reach blk nsize cap align h p out \<Longrightarrow> q < 2 ^ 32 \<Longrightarrow>
    utils_memp_free h (Some p) q = Some (r, h', Some p') \<Longrightarrow>
    memp_reach blk nsize cap align h' p' (if r = 0 then out - {q} else out)"

lemma memp_reach_ok:
  assumes "memp_reach blk nsize cap align h p out"
    and "0 < unat align" "unat align \<le> 252" "unat nsize \<le> 65276" "0xA5 < blk" "blk + unat (memp_size nsize cap align) < 2 ^ 32"
  shows "\<exists>fl al. memp_ok h p fl al \<and> out = (\<lambda>a. a + sizeof_memp_node) ` al \<and>
    first_node p = blk + memp_head align \<and> padded_node_size p = ucast (memp_padded nsize align) \<and> pool_cap p = ucast cap"
  using assms
proof (induction rule: memp_reach.induct)
  case (create h0 h p)
  then show ?case using memp_init_ok [of align nsize blk cap h0] by auto
next
  case (malloc h p out r h' p')
  then obtain fl al where ok: "memp_ok h p fl al" and o: "out = (\<lambda>a. a + sizeof_memp_node) ` al"
    and l: "first_node p = blk + memp_head align" "padded_node_size p = ucast (memp_padded nsize align)" "pool_cap p = ucast cap"
    by blast
  show ?case
  proof (cases fl)
    case Nil
    then show ?thesis using malloc.hyps(2) memp_malloc_ok(1) [OF ok] ok o l by auto
  next
    case (Cons a fl')
    then obtain h2 p2 where "utils_memp_malloc h (Some p) = (Some (a + sizeof_memp_node), h2, Some p2)"
      "memp_ok h2 p2 fl' (insert a al)" "padded_node_size p2 = padded_node_size p" "first_node p2 = first_node p" "pool_cap p2 = pool_cap p"
      using memp_malloc_ok(2) [OF ok, of a fl'] by blast
    then show ?thesis using malloc.hyps(2) o l by (intro exI [of _ fl'] exI [of _ "insert a al"]) auto
  qed
next
  case (free h p out q r h' p')
  then obtain fl al where ok: "memp_ok h p fl al" and o: "out = (\<lambda>a. a + sizeof_memp_node) ` al"
    and l: "first_node p = blk + memp_head align" "padded_node_size p = ucast (memp_padded nsize align)" "pool_cap p = ucast cap"
    by blast
  show ?case
  proof (cases "memp_offset q \<in> al")
    case False
    then show ?thesis using free.hyps(3) memp_free_guard [OF ok, of q] ok o l by auto
  next
    case True
    then have q: "q = memp_offset q + sizeof_memp_node" using ok free.hyps(2) by (intro memp_offset_inv) (auto simp: memp_ok_def)
    have "out - {q} = (\<lambda>a. a + sizeof_memp_node) ` (al - {memp_offset q})" using o q by auto
    then show ?thesis using free.hyps(3) memp_free_guard [OF ok, of q] memp_free_ok [OF ok True] True l
      by (intro exI [of _ "memp_offset q # fl"] exI [of _ "al - {memp_offset q}"]) auto
  qed
qed



end
