(* ===== verification/Utils_TLV.thy ===== *)
theory Utils_TLV
  imports BL_Prelude
begin

unbundle bit_operations_syntax

text \<open>
  The element packer of \<open>utils/src/utils_tlv_bl.c\<close>. A buffer cell is the 32-bit word \<open>*buf\<close>; the
  memory behind \<open>arg1\<close> is a little-endian 32-bit word of which a \<open>bool\<close> access touches the lowest
  byte. An operation returns its \<open>int\<close> result and the written memory.
\<close>

section \<open>Model\<close>

definition CFG_ELEMENT_TYPE_SIZE_BOOLEAN :: int where "CFG_ELEMENT_TYPE_SIZE_BOOLEAN = 4"
definition CFG_ELEMENT_TYPE_SIZE_UINT32 :: int where "CFG_ELEMENT_TYPE_SIZE_UINT32 = 4"
definition UTILS_TLV_BL_ERROR_CODE_BUF_TOO_SMALL :: int where "UTILS_TLV_BL_ERROR_CODE_BUF_TOO_SMALL = -1"
definition UTILS_TLV_BL_ERROR_CODE_UNKOWN :: int where "UTILS_TLV_BL_ERROR_CODE_UNKOWN = -2"

datatype CFG_ELEMENT_TYPE = CFG_UNKNOWN | CFG_BOOLEAN | CFG_SINT8 | CFG_UINT8 | CFG_SINT16 | CFG_UINT16 |
  CFG_SINT32 | CFG_UINT32 | CFG_STRING

text \<open>The \<open>uint16_t\<close> switch value as an enumerator; every other value takes the \<open>default\<close> branch.\<close>

definition cfg_type :: "u16 \<Rightarrow> CFG_ELEMENT_TYPE" where
  "cfg_type t = (if t = 1 then CFG_BOOLEAN else if t = 2 then CFG_SINT8 else if t = 3 then CFG_UINT8
     else if t = 4 then CFG_SINT16 else if t = 5 then CFG_UINT16 else if t = 6 then CFG_SINT32
     else if t = 7 then CFG_UINT32 else if t = 8 then CFG_STRING else CFG_UNKNOWN)"

definition utils_tlv_bl_pack_bool :: "u32 \<Rightarrow> int \<Rightarrow> bool \<Rightarrow> int \<times> u32" where
  "utils_tlv_bl_pack_bool buf buf_sz val =
     (if buf_sz < CFG_ELEMENT_TYPE_SIZE_BOOLEAN then (UTILS_TLV_BL_ERROR_CODE_BUF_TOO_SMALL, buf)
      else (CFG_ELEMENT_TYPE_SIZE_BOOLEAN, of_bool val))"

definition utils_tlv_bl_pack_uint32 :: "u32 \<Rightarrow> int \<Rightarrow> u32 \<Rightarrow> int \<times> u32" where
  "utils_tlv_bl_pack_uint32 buf buf_sz val =
     (if buf_sz < CFG_ELEMENT_TYPE_SIZE_UINT32 then (UTILS_TLV_BL_ERROR_CODE_BUF_TOO_SMALL, buf)
      else (CFG_ELEMENT_TYPE_SIZE_UINT32, val))"

definition utils_tlv_bl_unpack_bool :: "u32 \<Rightarrow> int \<Rightarrow> bool \<Rightarrow> int \<times> bool" where
  "utils_tlv_bl_unpack_bool buf buf_sz val =
     (if buf_sz < CFG_ELEMENT_TYPE_SIZE_BOOLEAN then (UTILS_TLV_BL_ERROR_CODE_BUF_TOO_SMALL, val)
      else (CFG_ELEMENT_TYPE_SIZE_BOOLEAN, buf \<noteq> 0))"

definition utils_tlv_bl_unpack_uint32 :: "u32 \<Rightarrow> int \<Rightarrow> u32 \<Rightarrow> int \<times> u32" where
  "utils_tlv_bl_unpack_uint32 buf buf_sz val =
     (if buf_sz < CFG_ELEMENT_TYPE_SIZE_UINT32 then (UTILS_TLV_BL_ERROR_CODE_BUF_TOO_SMALL, val)
      else (CFG_ELEMENT_TYPE_SIZE_BOOLEAN, buf))"

definition rd_bool :: "u32 \<Rightarrow> bool" where "rd_bool w = (w AND 0xFF \<noteq> 0)"
definition wr_bool :: "u32 \<Rightarrow> bool \<Rightarrow> u32" where "wr_bool w b = (w AND NOT 0xFF) OR of_bool b"

definition utils_tlv_bl_pack_auto :: "u32 \<Rightarrow> int \<Rightarrow> u16 \<Rightarrow> u32 \<Rightarrow> int \<times> u32" where
  "utils_tlv_bl_pack_auto buf buf_sz type arg1 = (case cfg_type type of
      CFG_BOOLEAN \<Rightarrow> utils_tlv_bl_pack_bool buf buf_sz (if rd_bool arg1 then True else False)
    | CFG_UINT32 \<Rightarrow> utils_tlv_bl_pack_uint32 buf buf_sz arg1
    | _ \<Rightarrow> (UTILS_TLV_BL_ERROR_CODE_UNKOWN, buf))"

definition utils_tlv_bl_unpack_auto :: "u32 \<Rightarrow> int \<Rightarrow> u16 \<Rightarrow> u32 \<Rightarrow> int \<times> u32" where
  "utils_tlv_bl_unpack_auto buf buf_sz type arg1 = (case cfg_type type of
      CFG_BOOLEAN \<Rightarrow> let (ret, val) = utils_tlv_bl_unpack_bool buf buf_sz True in (ret, wr_bool arg1 val)
    | CFG_UINT32 \<Rightarrow> utils_tlv_bl_unpack_uint32 buf buf_sz 0
    | _ \<Rightarrow> (UTILS_TLV_BL_ERROR_CODE_UNKOWN, arg1))"

lemmas tlv_defs = CFG_ELEMENT_TYPE_SIZE_BOOLEAN_def CFG_ELEMENT_TYPE_SIZE_UINT32_def
  UTILS_TLV_BL_ERROR_CODE_BUF_TOO_SMALL_def UTILS_TLV_BL_ERROR_CODE_UNKOWN_def
  utils_tlv_bl_pack_bool_def utils_tlv_bl_pack_uint32_def utils_tlv_bl_unpack_bool_def
  utils_tlv_bl_unpack_uint32_def utils_tlv_bl_pack_auto_def utils_tlv_bl_unpack_auto_def

section \<open>Properties\<close>

lemma rd_wr_bool [simp]: "rd_bool (wr_bool w b) = b"
proof -
  have "wr_bool w b AND 0xFF = of_bool b"
    by (rule bit_eqI) (auto simp: wr_bool_def bit_simps bit_mask_int)
  then show ?thesis by (simp add: rd_bool_def)
qed

text \<open>
  C26: what \<open>utils_tlv_bl_pack_auto\<close> stores, \<open>utils_tlv_bl_unpack_auto\<close> reads back, for the boolean
  and the 32-bit element and every buffer of at least four bytes; a smaller buffer gives the error
  code and leaves the buffer alone, yet unpacking then overwrites the destination with its default;
  every other element type is refused with nothing written.
\<close>

theorem utils_tlv_roundtrip:
  "(4 \<le> sz \<longrightarrow>
     utils_tlv_bl_unpack_auto (snd (utils_tlv_bl_pack_auto buf sz 7 v)) sz 7 dst = (4, v) \<and>
     (\<exists>w. utils_tlv_bl_unpack_auto (snd (utils_tlv_bl_pack_auto buf sz 1 v)) sz 1 dst = (4, w) \<and> rd_bool w = rd_bool v \<and>
        drop_bit 8 w = drop_bit 8 dst)) \<and>
   (sz < 4 \<longrightarrow> (\<forall>t\<in>{1, 7}. utils_tlv_bl_pack_auto buf sz t v = (-1, buf) \<and> fst (utils_tlv_bl_unpack_auto buf sz t dst) = -1) \<and>
     snd (utils_tlv_bl_unpack_auto buf sz 7 dst) = 0 \<and> rd_bool (snd (utils_tlv_bl_unpack_auto buf sz 1 dst))) \<and>
   (t \<notin> {1, 7} \<longrightarrow> utils_tlv_bl_pack_auto buf sz t v = (-2, buf) \<and> utils_tlv_bl_unpack_auto buf sz t dst = (-2, dst))"
proof -
  have "bit (wr_bool dst b) (8 + n) = bit dst (8 + n)" for b n
    by (auto simp: wr_bool_def bit_simps bit_mask_int dest: bit_imp_le_length)
  then have "drop_bit 8 (wr_bool dst b) = drop_bit 8 dst" for b by (intro bit_eqI) (simp add: bit_drop_bit_eq)
  then show ?thesis by (auto simp: tlv_defs cfg_type_def)
qed

theorem utils_tlv_roundtrip_witness:
  "utils_tlv_bl_unpack_auto (snd (utils_tlv_bl_pack_auto 0 8 7 0xCAFE)) 8 7 0 = (4, 0xCAFE) \<and>
   utils_tlv_bl_pack_auto 5 3 1 9 = (-1, 5) \<and> utils_tlv_bl_pack_auto 5 8 2 9 = (-2, 5)"
  using utils_tlv_roundtrip [of 8 0 "0xCAFE" 0 2] utils_tlv_roundtrip [of 3 5 9 0 2] utils_tlv_roundtrip [of 8 5 9 0 2]
  by simp

end
