(* ===== verification/Utils_BitmapWindow.thy ===== *)
theory Utils_BitmapWindow
  imports BL_Prelude
begin

unbundle bit_operations_syntax

text \<open>
  The sliding window over sequence numbers of \<open>utils/src/utils_bitmap_window.c\<close>. Bit \<open>i\<close> of the map
  records that number \<open>ssn + i\<close> (modulo \<open>ssn_duration\<close>) has arrived; the window slides past the
  numbers that have all arrived. \<open>1 << pos_offset\<close> is an \<open>int\<close> shift: bit 31 is the sign, and a
  shift by more is undefined (\<open>None\<close>).
\<close>

section \<open>Model\<close>

record utils_bitmap_ctx =
  ssn :: int
  ssn_duration :: int
  map64 :: u64

definition utils_bitmap_window_init :: "int \<Rightarrow> int \<Rightarrow> utils_bitmap_ctx" where
  "utils_bitmap_window_init s ssn_max = \<lparr>ssn = s, ssn_duration = ssn_max + 1, map64 = 0\<rparr>"

definition int_shl1 :: "int \<Rightarrow> u64 option" where
  "int_shl1 pos = (if 0 \<le> pos \<and> pos < 32 then Some (scast (push_bit (nat pos) 1 :: s32)) else None)"

fun bw_slide :: "nat \<Rightarrow> utils_bitmap_ctx \<Rightarrow> utils_bitmap_ctx" where
  "bw_slide 0 ctx = ctx"
| "bw_slide (Suc n) ctx = bw_slide n
     (if map64 ctx AND 0x1 \<noteq> 0 then
        let s = ssn ctx + 1 in
        ctx\<lparr>map64 := drop_bit 1 (map64 ctx), ssn := (if s = ssn_duration ctx then 0 else s)\<rparr>
      else ctx)"

definition INT_MAX :: int where "INT_MAX = 2 ^ 31 - 1"

definition utils_bitmap_window_bit_set :: "utils_bitmap_ctx \<Rightarrow> int \<Rightarrow> (int \<times> utils_bitmap_ctx) option" where
  "utils_bitmap_window_bit_set ctx bit_pos =
     (if bit_pos < ssn ctx \<and> (ssn_duration ctx - ssn ctx + bit_pos + 1) mod 2 ^ 32 > 8 * 8 then Some (- INT_MAX, ctx)
      else let pos_offset = bit_pos + ssn_duration ctx - ssn ctx;
               pos_offset = (if pos_offset \<ge> ssn_duration ctx then pos_offset - ssn_duration ctx else pos_offset)
        in do {
          b \<leftarrow> int_shl1 pos_offset;
          if map64 ctx AND b \<noteq> 0 then Some (- bit_pos, ctx)
          else Some (pos_offset, bw_slide (8 * 8) (ctx\<lparr>map64 := map64 ctx OR b\<rparr>))
        })"

definition utils_bitmap_window_map_get :: "utils_bitmap_ctx \<Rightarrow> u64" where
  "utils_bitmap_window_map_get ctx = map64 ctx"

definition utils_bitmap_window_ssn_get :: "utils_bitmap_ctx \<Rightarrow> int" where
  "utils_bitmap_window_ssn_get ctx = ssn ctx"

section \<open>Sliding\<close>

lemma bw_slide_stop: "\<not> bit (map64 ctx) 0 \<Longrightarrow> bw_slide n ctx = ctx"
proof -
  assume "\<not> bit (map64 ctx) 0"
  then have "map64 ctx AND 1 = 0" by (simp add: bit_0 even_iff_mod_2_eq_zero and_one_eq)
  then show ?thesis by (induction n) simp_all
qed

lemma bw_slide_ones:
  assumes "\<forall>i<t. bit (map64 ctx) i" "\<not> bit (map64 ctx) t" "t \<le> n" "0 \<le> ssn ctx" "ssn ctx < ssn_duration ctx"
  shows "bw_slide n ctx = ctx\<lparr>map64 := drop_bit t (map64 ctx), ssn := (ssn ctx + int t) mod ssn_duration ctx\<rparr>"
  using assms
proof (induction t arbitrary: ctx n)
  case 0
  then show ?case by (simp add: bw_slide_stop)
next
  case (Suc t)
  then obtain m where n: "n = Suc m" by (cases n) auto
  let ?c = "ctx\<lparr>map64 := drop_bit 1 (map64 ctx), ssn := (ssn ctx + 1) mod ssn_duration ctx\<rparr>"
  have "bit (map64 ctx) 0" using Suc.prems(1) by simp
  then have "map64 ctx AND 1 \<noteq> 0" by (simp add: bit_0 odd_iff_mod_2_eq_one and_one_eq)
  moreover have "(if ssn ctx + 1 = ssn_duration ctx then 0 else ssn ctx + 1) = (ssn ctx + 1) mod ssn_duration ctx"
    using Suc.prems(4,5) by simp
  ultimately have "bw_slide n ctx = bw_slide m ?c" by (simp add: n Let_def)
  moreover have "bw_slide m ?c = ?c\<lparr>map64 := drop_bit t (map64 ?c), ssn := (ssn ?c + int t) mod ssn_duration ?c\<rparr>"
    using Suc.prems n by (intro Suc.IH) (auto simp: bit_drop_bit_eq)
  moreover have "((ssn ctx + 1) mod ssn_duration ctx + int t) mod ssn_duration ctx = (ssn ctx + int (Suc t)) mod ssn_duration ctx"
    by (simp add: mod_add_left_eq add.assoc)
  ultimately show ?case by simp
qed

lemma ones_end: "\<exists>t\<le>64. (\<forall>i<t. bit (m :: u64) i) \<and> \<not> bit m t"
proof -
  have "\<not> bit m 64" by (auto dest: bit_imp_le_length)
  then have "\<not> bit m (LEAST t. \<not> bit m t)" "(LEAST t. \<not> bit m t) \<le> 64" by (rule LeastI, rule Least_le)
  moreover have "bit m i" if "i < (LEAST t. \<not> bit m t)" for i using not_less_Least [OF that] by simp
  ultimately show ?thesis by blast
qed

lemma int_shl1_low:
  assumes "e < 31"
  shows "int_shl1 (int e) = Some (push_bit e 1)"
proof -
  have "scast (push_bit e 1 :: s32) = (push_bit e 1 :: u64)"
    using assms by (intro bit_eqI) (auto simp: bit_simps min_def)
  then show ?thesis using assms by (simp add: int_shl1_def)
qed

lemma and_bit_iff: "m AND push_bit e 1 \<noteq> 0 \<longleftrightarrow> bit m e" for m :: u64
proof -
  have "bit (m AND push_bit e 1) i \<longleftrightarrow> i = e \<and> bit m e" for i
    by (auto simp: bit_simps dest: bit_imp_le_length)
  then show ?thesis by (metis bit_0_eq bot_apply bot_bool_def bit_eqI)
qed

lemma bw_set_at:
  assumes "\<not> (p < ssn ctx \<and> (ssn_duration ctx - ssn ctx + p + 1) mod 2 ^ 32 > 8 * 8)" and "e < 31"
    and "p + ssn_duration ctx - ssn ctx = int e + (if ssn ctx \<le> p then ssn_duration ctx else 0)"
    and "int e < ssn_duration ctx"
  shows "utils_bitmap_window_bit_set ctx p =
    (if bit (map64 ctx) e then Some (- p, ctx)
     else Some (int e, bw_slide (8 * 8) (ctx\<lparr>map64 := map64 ctx OR push_bit e 1\<rparr>)))"
proof -
  have o: "(let pos_offset = p + ssn_duration ctx - ssn ctx
           in if pos_offset \<ge> ssn_duration ctx then pos_offset - ssn_duration ctx else pos_offset) = int e"
    using assms(3,4) by (auto simp: Let_def)
  show ?thesis
    unfolding utils_bitmap_window_bit_set_def o [unfolded Let_def] Let_def int_shl1_low [OF assms(2)]
    using assms(1) and_bit_iff [of "map64 ctx" e] by (auto simp del: push_bit_of_1)
qed

section \<open>Refinement\<close>

text \<open>
  \<open>bw_rel d first n R ctx\<close>: numbers count without wrap-around from \<open>first\<close>, \<open>R\<close> is the set of those
  received, all below \<open>n\<close> among them, \<open>n\<close> not, and the context is the window at \<open>n\<close>.
\<close>

definition bw_rel :: "nat \<Rightarrow> nat \<Rightarrow> nat \<Rightarrow> nat set \<Rightarrow> utils_bitmap_ctx \<Rightarrow> bool" where
  "bw_rel d first n R ctx \<longleftrightarrow> 64 \<le> d \<and> int d < 2 ^ 31 \<and> ssn_duration ctx = int d \<and> ssn ctx = int (n mod d) \<and>
     {first..<n} \<subseteq> R \<and> n \<notin> R \<and> (\<forall>i. bit (map64 ctx) i \<longleftrightarrow> n + i \<in> R)"

lemma bw_rel_init: "64 \<le> d \<Longrightarrow> int d < 2 ^ 31 \<Longrightarrow> bw_rel d first first {} (utils_bitmap_window_init (int (first mod d)) (int d - 1))"
  by (simp add: bw_rel_def utils_bitmap_window_init_def)

lemma bw_offset:
  assumes "64 \<le> d" "n \<le> k" "k < n + 31"
  shows "int (k mod d) + int d - int (n mod d) = int (k - n) + (if n mod d \<le> k mod d then int d else 0)"
proof -
  define r e where "r = n mod d" and "e = k - n"
  have re: "r < d" "e < d" "k = n + e" using assms by (auto simp: r_def e_def)
  then have "k mod d = (r + e) mod d" by (simp add: r_def mod_add_left_eq)
  then have k: "k mod d = (if r + e < d then r + e else r + e - d)" using re by (simp add: mod_if)
  show ?thesis unfolding r_def [symmetric] e_def [symmetric] k using re by auto
qed



end
