(* ===== verification/Utils_Notifier.thy ===== *)
theory Utils_Notifier
  imports Utils_List
begin

text \<open>
  The notifier chains of \<open>utils/src/utils_notifier.c\<close>, a client of \<open>struct utils_list\<close>. A notifier
  node is a list header with a callback and its argument; \<open>utils_notifier_chain_call\<close> yields the calls
  it makes, in order. The callbacks do not touch the chain in the model.
\<close>

record ('c, 'a) utils_notifier =
  cb :: "'c option"
  cb_arg :: 'a
  priority :: int

definition utils_notifier_chain_init :: "utils_list \<Rightarrow> int \<times> utils_list" where
  "utils_notifier_chain_init nl = (0, utils_list_init nl)"

definition utils_notifier_chain_register ::
  "hdrs \<Rightarrow> utils_list option \<Rightarrow> ptr \<Rightarrow> (int \<times> hdrs \<times> utils_list option) option" where
  "utils_notifier_chain_register h nl node = (case nl of
      None \<Rightarrow> Some (-1, h, nl)
    | Some l \<Rightarrow> if node = NULL then Some (-1, h, nl)
        else do { (h, l) \<leftarrow> utils_list_push_back h l node; Some (0, h, Some l) })"

partial_function (option) notifier_call_loop ::
  "hdrs \<Rightarrow> (addr \<Rightarrow> ('c, 'a) utils_notifier) \<Rightarrow> ptr \<Rightarrow> 'e \<Rightarrow> ('c \<times> 'a \<times> 'e) list \<Rightarrow> ('c \<times> 'a \<times> 'e) list option" where
  "notifier_call_loop h m raw env calls = (case raw of
      None \<Rightarrow> Some calls
    | Some a \<Rightarrow> notifier_call_loop h m (h a) env
        (case cb (m a) of None \<Rightarrow> calls | Some f \<Rightarrow> calls @ [(f, cb_arg (m a), env)]))"

declare notifier_call_loop.simps [code]

definition utils_notifier_chain_call ::
  "hdrs \<Rightarrow> (addr \<Rightarrow> ('c, 'a) utils_notifier) \<Rightarrow> utils_list option \<Rightarrow> 'e \<Rightarrow> (int \<times> ('c \<times> 'a \<times> 'e) list) option" where
  "utils_notifier_chain_call h m nl env = (case nl of
      None \<Rightarrow> Some (0, [])
    | Some l \<Rightarrow> do { calls \<leftarrow> notifier_call_loop h m (ul_first l) env []; Some (0, calls) })"

primrec register_all :: "hdrs \<Rightarrow> utils_list option \<Rightarrow> addr list \<Rightarrow> (hdrs \<times> utils_list option) option" where
  "register_all h nl [] = Some (h, nl)"
| "register_all h nl (n # ns) = do { (_, h, nl) \<leftarrow> utils_notifier_chain_register h nl (Some n); register_all h nl ns }"

definition notified :: "(addr \<Rightarrow> ('c, 'a) utils_notifier) \<Rightarrow> 'e \<Rightarrow> addr list \<Rightarrow> ('c \<times> 'a \<times> 'e) list" where
  "notified m env ns = concat (map (\<lambda>a. case cb (m a) of None \<Rightarrow> [] | Some f \<Rightarrow> [(f, cb_arg (m a), env)]) ns)"

lemma register_all_enq:
  "register_all h (Some l) ns = map_option (\<lambda>(h, l). (h, Some l)) (enq_all utils_list_push_back h l ns)"
  by (induction ns arbitrary: h l)
    (auto simp: utils_notifier_chain_register_def split: Option.bind_splits option.splits)

lemma call_loop_chain:
  "chain h p ns NULL \<Longrightarrow> notifier_call_loop h m p env calls = Some (calls @ notified m env ns)"
proof (induction ns arbitrary: p calls)
  case Nil
  then show ?case by (subst notifier_call_loop.simps) (simp add: notified_def)
next
  case (Cons n ns)
  then show ?case by (subst notifier_call_loop.simps) (simp add: notified_def split: option.splits)
qed

text \<open>
  C21: after registering distinct notifiers on an initialised chain, \<open>utils_notifier_chain_call\<close> returns
  and has called every callback that is set exactly once, in the order of registration, with its own
  argument and the given environment.
\<close>

theorem notifier_calls_in_order:
  assumes "distinct ns"
  shows "\<exists>h' l'. register_all h (Some (snd (utils_notifier_chain_init l))) ns = Some (h', Some l') \<and>
    utils_notifier_chain_call h' m (Some l') env = Some (0, notified m env ns)"
proof -
  obtain h' l' where "enq_all utils_list_push_back h (utils_list_init l) ns = Some (h', l')" "ul_list h' l' ns"
    using ulq.enq_all_rep [OF ul_list_init [of h l], where ys = ns] assms by auto
  then show ?thesis
    by (auto simp: register_all_enq utils_notifier_chain_init_def utils_notifier_chain_call_def
        call_loop_chain [OF ul_list_chain])
qed

theorem notifier_calls_in_order_witness:
  "\<exists>h' l'. register_all (\<lambda>_. NULL) (Some (snd (utils_notifier_chain_init \<lparr>ul_first = NULL, ul_last = NULL\<rparr>))) [8, 4] = Some (h', Some l') \<and>
    utils_notifier_chain_call h' (\<lambda>a. \<lparr>cb = Some a, cb_arg = (), priority = 0\<rparr>) (Some l') True =
      Some (0, [(8, (), True), (4, (), True)])"
  using notifier_calls_in_order [of "[8, 4]" "\<lambda>_. NULL" "\<lparr>ul_first = NULL, ul_last = NULL\<rparr>" "\<lambda>a. \<lparr>cb = Some a, cb_arg = (), priority = 0\<rparr>" True]
  by (simp add: notified_def)

end
