(* ===== verification/Bloop.thy ===== *)
theory Bloop
  imports Utils_List Utils_Dlist
begin

unbundle bit_operations_syntax

text \<open>
  The event loop of \<open>sys/bloop/bloop\<close>: the loop context with its event bitmaps and handler table,
  the timers kept in an ascending doubly linked list, and the dispatch of the highest pending event.

  A timer is named by its address, which is that of its first field \<open>dlist_item\<close>. The world of the
  loop holds the links of all \<open>utils_dlist_t\<close>, the timers' other fields, the loop context and the
  timers given to \<open>vPortFree\<close>. Callbacks, event handlers and the clock are parameters. \<open>None\<close> is a
  failed \<open>BL_ASSERT_ERROR\<close>, an access through \<open>NULL\<close> or a list walk that does not end.
\<close>

section \<open>State\<close>

record loop_evt_handler_statistic =
  time_max :: u32
  time_consumed :: u32
  time_accumulated :: u32
  count_triggered :: u32

definition LOOP_TASK_MAX :: nat where "LOOP_TASK_MAX = 32"
definition LOOP_TASK_PRIORITY_HIGHEST :: int where "LOOP_TASK_PRIORITY_HIGHEST = 31"

record loop_ctx =
  looper :: ptr
  bitmap_evt_async :: u32
  bitmap_evt_sync :: u32
  bitmap_msg :: u32
  evt_type_map_async :: "u32 list"
  evt_type_map_sync :: "u32 list"
  msg_lists :: "utils_list list"
  statistic :: "loop_evt_handler_statistic list"
  handlers :: "ptr list"
  timer_dlist :: addr
  timer_dued :: addr

definition LOOP_TIMER_FLAG_NONE :: u8 where "LOOP_TIMER_FLAG_NONE = 0"
definition LOOP_TIMER_FLAG_AUTO_REPEAT :: u8 where "LOOP_TIMER_FLAG_AUTO_REPEAT = push_bit 0 1"
definition LOOP_TIMER_FLAG_AUTO_FREE :: u8 where "LOOP_TIMER_FLAG_AUTO_FREE = push_bit 1 1"

record loop_timer =
  t_flags :: u8
  time_added :: u32
  time_target :: u32
  idx_task :: int
  evt_type_map :: u32
  t_cb :: ptr
  t_arg :: ptr

definition LOOP_TIMER_IS_AUTO_FREE :: "loop_timer \<Rightarrow> bool" where
  "LOOP_TIMER_IS_AUTO_FREE t = (t_flags t AND LOOP_TIMER_FLAG_AUTO_FREE \<noteq> 0)"
definition LOOP_TIMER_IS_AUTO_REPEAT :: "loop_timer \<Rightarrow> bool" where
  "LOOP_TIMER_IS_AUTO_REPEAT t = (t_flags t AND LOOP_TIMER_FLAG_AUTO_REPEAT \<noteq> 0)"

record world =
  links :: dlinks
  hdr_heap :: hdrs
  timers :: "addr \<Rightarrow> loop_timer"
  ctx :: loop_ctx
  freed :: "addr list"

section \<open>Context, handlers\<close>

definition stat0 :: loop_evt_handler_statistic where
  "stat0 = \<lparr>time_max = 0, time_consumed = 0, time_accumulated = 0, count_triggered = 0\<rparr>"

definition bloop_init :: "world \<Rightarrow> int \<times> world" where
  "bloop_init w =
     (let l = \<lparr>looper = NULL, bitmap_evt_async = 0, bitmap_evt_sync = 0, bitmap_msg = 0,
              evt_type_map_async = replicate LOOP_TASK_MAX 0, evt_type_map_sync = replicate LOOP_TASK_MAX 0,
              msg_lists = map utils_list_init (replicate LOOP_TASK_MAX \<lparr>ul_first = NULL, ul_last = NULL\<rparr>),
              statistic = replicate LOOP_TASK_MAX stat0, handlers = replicate LOOP_TASK_MAX NULL,
              timer_dlist = timer_dlist (ctx w), timer_dued = timer_dued (ctx w)\<rparr>;
          d = INIT_UTILS_DLIST_HEAD (links w) (timer_dlist l);
          d = INIT_UTILS_DLIST_HEAD d (timer_dued l)
      in (0, w\<lparr>ctx := l, links := d\<rparr>))"

text \<open>The search loop of \<open>bloop_handler_register\<close>: it tests \<open>handlers[priority]\<close> in every round.\<close>

fun register_scan :: "ptr list \<Rightarrow> nat \<Rightarrow> nat \<Rightarrow> nat \<Rightarrow> nat" where
  "register_scan hs priority i 0 = i"
| "register_scan hs priority i (Suc n) =
     (if hs ! priority = NULL then i else register_scan hs priority (Suc i) n)"

definition bloop_handler_register :: "loop_ctx \<Rightarrow> ptr \<Rightarrow> int \<Rightarrow> int \<times> loop_ctx" where
  "bloop_handler_register l handler priority =
     (if priority < 0 \<or> priority \<ge> int LOOP_TASK_MAX then (-1, l)
      else let p = nat priority;
               i = (if handlers l ! p = NULL then p else register_scan (handlers l) p p (LOOP_TASK_MAX - p))
        in if handlers l ! p \<noteq> NULL \<and> i = LOOP_TASK_MAX then (-1, l)
           else (0, l\<lparr>handlers := (handlers l)[i := handler]\<rparr>))"

definition bloop_handler_unregister :: "loop_ctx \<Rightarrow> ptr \<Rightarrow> int \<Rightarrow> int \<times> loop_ctx" where
  "bloop_handler_unregister l handler priority =
     (if priority < 0 \<or> priority \<ge> int LOOP_TASK_MAX then (-1, l)
      else if handlers l ! nat priority = NULL then (-2, l)
      else if handler \<noteq> handlers l ! nat priority then (-3, l)
      else (0, l\<lparr>handlers := (handlers l)[nat priority := NULL]\<rparr>))"

section \<open>Events\<close>

definition bloop_evt_set_async :: "loop_ctx \<Rightarrow> nat \<Rightarrow> u32 \<Rightarrow> loop_ctx option" where
  "bloop_evt_set_async l evt evt_map =
     (if evt < LOOP_TASK_MAX then
        Some (l\<lparr>bitmap_evt_async := bitmap_evt_async l OR push_bit evt 1,
                evt_type_map_async := (evt_type_map_async l)[evt := evt_type_map_async l ! evt OR evt_map]\<rparr>)
      else None)"

definition bloop_evt_set_async_fromISR :: "loop_ctx \<Rightarrow> nat \<Rightarrow> u32 \<Rightarrow> loop_ctx option" where
  "bloop_evt_set_async_fromISR l evt evt_map =
     (if evt < LOOP_TASK_MAX then
        Some (l\<lparr>bitmap_evt_async := bitmap_evt_async l OR push_bit evt 1,
                evt_type_map_async := (evt_type_map_async l)[evt := evt_type_map_async l ! evt OR evt_map]\<rparr>)
      else None)"

definition bloop_evt_set_sync :: "loop_ctx \<Rightarrow> nat \<Rightarrow> u32 \<Rightarrow> loop_ctx option" where
  "bloop_evt_set_sync l evt evt_map =
     (if evt < LOOP_TASK_MAX then
        Some (l\<lparr>bitmap_evt_sync := bitmap_evt_sync l OR push_bit evt 1,
                evt_type_map_async := (evt_type_map_async l)[evt := evt_type_map_async l ! evt OR evt_map]\<rparr>)
      else None)"

definition bloop_evt_unset_sync :: "loop_ctx \<Rightarrow> nat \<Rightarrow> loop_ctx option" where
  "bloop_evt_unset_sync l evt =
     (if evt < LOOP_TASK_MAX then
        Some (l\<lparr>bitmap_evt_sync := bitmap_evt_sync l AND NOT (push_bit evt 1)\<rparr>)
      else None)"

section \<open>Timers\<close>

definition timer0 :: loop_timer where
  "timer0 = \<lparr>t_flags = 0, time_added = 0, time_target = 0, idx_task = 0, evt_type_map = 0, t_cb = NULL, t_arg = NULL\<rparr>"

definition bloop_timer_init :: "world \<Rightarrow> addr \<Rightarrow> int \<Rightarrow> world" where
  "bloop_timer_init w timer use_auto_free =
     w\<lparr>links := utils_dlist_init (links w) timer,
       timers := (timers w)(timer := timer0
         \<lparr>t_flags := if use_auto_free \<noteq> 0 then LOOP_TIMER_FLAG_AUTO_FREE else LOOP_TIMER_FLAG_NONE\<rparr>)\<rparr>"

text \<open>\<open>now\<close> is the value of \<open>xTaskGetTickCount\<close>.\<close>

definition bloop_timer_configure :: "u32 \<Rightarrow> loop_timer \<Rightarrow> u32 \<Rightarrow> ptr \<Rightarrow> ptr \<Rightarrow> int \<Rightarrow> u32 \<Rightarrow> loop_timer" where
  "bloop_timer_configure now t delay_ms cb arg idx evt_map =
     t\<lparr>time_added := now, time_target := now + delay_ms, t_cb := cb, t_arg := arg, idx_task := idx, evt_type_map := evt_map\<rparr>"

definition bloop_timer_repeat_enable :: "loop_timer \<Rightarrow> loop_timer" where
  "bloop_timer_repeat_enable t = t\<lparr>t_flags := t_flags t OR LOOP_TIMER_FLAG_AUTO_REPEAT\<rparr>"

definition bloop_timer_repeat_reconfigure :: "u32 \<Rightarrow> loop_timer \<Rightarrow> loop_timer" where
  "bloop_timer_repeat_reconfigure now t =
     (let delay_ms = time_target t - time_added t in t\<lparr>time_added := now, time_target := now + delay_ms\<rparr>)"

definition int_diff :: "u32 \<Rightarrow> u32 \<Rightarrow> int" where "int_diff a b = sint (a - b)"

partial_function (option) register_walk ::
  "dlinks \<Rightarrow> (addr \<Rightarrow> loop_timer) \<Rightarrow> addr \<Rightarrow> addr \<Rightarrow> addr \<Rightarrow> ptr \<Rightarrow> (bool \<times> ptr) option" where
  "register_walk d T head timer node node_pre =
     (if node = head then Some (False, node_pre)
      else if int_diff (time_target (T timer)) (time_target (T node)) \<le> 0 then Some (True, node_pre)
      else register_walk d T head timer (d_next d node) (Some node))"

declare register_walk.simps [code]

definition bloop_timer_register :: "world \<Rightarrow> addr \<Rightarrow> world option" where
  "bloop_timer_register w timer =
     (let d = links w; head = timer_dlist (ctx w) in
      if utils_dlist_empty d head then Some (w\<lparr>links := utils_dlist_add d timer head\<rparr>)
      else do {
        (found, node_pre) \<leftarrow> register_walk d (timers w) head timer (d_next d head) NULL;
        if found then
          Some (w\<lparr>links := utils_dlist_add d timer (case node_pre of None \<Rightarrow> head | Some p \<Rightarrow> p)\<rparr>)
        else do { p \<leftarrow> node_pre; Some (w\<lparr>links := utils_dlist_add d timer p\<rparr>) }
      })"

definition timer_is_up_handle :: "(addr \<Rightarrow> addr \<Rightarrow> ptr \<Rightarrow> world \<Rightarrow> world) \<Rightarrow> world \<Rightarrow> addr \<Rightarrow> world option" where
  "timer_is_up_handle cbs w timer = do {
     l \<leftarrow> bloop_evt_set_sync (ctx w) (unat (word_of_int (idx_task (timers w timer)) :: u32)) (evt_type_map (timers w timer));
     let w = w\<lparr>ctx := l\<rparr>;
     let w = (case t_cb (timers w timer) of None \<Rightarrow> w | Some f \<Rightarrow> cbs f timer (t_arg (timers w timer)) w);
     let d = utils_dlist_del (links w) timer;
     Some (w\<lparr>links := utils_dlist_add d timer (timer_dued (ctx w))\<rparr>)
   }"

text \<open>\<open>clock\<close> gives the tick at which a repeating timer is reconfigured.\<close>

partial_function (option) timer_dued_loop :: "(addr \<Rightarrow> u32) \<Rightarrow> world \<Rightarrow> addr \<Rightarrow> addr \<Rightarrow> world option" where
  "timer_dued_loop clock w timer tmp =
     (if timer = timer_dued (ctx w) then Some w
      else do {
        let w = w\<lparr>links := utils_dlist_del (links w) timer\<rparr>;
        w \<leftarrow> (if LOOP_TIMER_IS_AUTO_FREE (timers w timer) then Some (w\<lparr>freed := freed w @ [timer]\<rparr>)
             else if LOOP_TIMER_IS_AUTO_REPEAT (timers w timer) then
               bloop_timer_register
                 (w\<lparr>timers := (timers w)(timer := bloop_timer_repeat_reconfigure (clock timer) (timers w timer))\<rparr>) timer
             else Some w);
        timer_dued_loop clock w tmp (d_next (links w) tmp)
      })"

declare timer_dued_loop.simps [code]

definition timer_dued_clean :: "(addr \<Rightarrow> u32) \<Rightarrow> world \<Rightarrow> world option" where
  "timer_dued_clean clock w =
     (let n = d_next (links w) (timer_dued (ctx w)) in timer_dued_loop clock w n (d_next (links w) n))"

section \<open>Waiting\<close>

partial_function (option) timer_up_loop ::
  "(addr \<Rightarrow> addr \<Rightarrow> ptr \<Rightarrow> world \<Rightarrow> world) \<Rightarrow> u32 \<Rightarrow> world \<Rightarrow> addr \<Rightarrow> addr \<Rightarrow> world option" where
  "timer_up_loop cbs time_now w timer tmp =
     (if timer = timer_dlist (ctx w) then Some w
      else if int_diff time_now (time_target (timers w timer)) \<ge> 0 then do {
        w \<leftarrow> timer_is_up_handle cbs w timer;
        timer_up_loop cbs time_now w tmp (d_next (links w) tmp)
      } else Some w)"

declare timer_up_loop.simps [code]

definition handle_timer :: "(addr \<Rightarrow> addr \<Rightarrow> ptr \<Rightarrow> world \<Rightarrow> world) \<Rightarrow> u32 \<Rightarrow> (addr \<Rightarrow> u32) \<Rightarrow> world \<Rightarrow> world option" where
  "handle_timer cbs time_now clock w =
     (let head = timer_dlist (ctx w) in
      if utils_dlist_empty (links w) head then Some w
      else do {
        let n = d_next (links w) head;
        w \<leftarrow> timer_up_loop cbs time_now w n (d_next (links w) n);
        timer_dued_clean clock w
      })"

definition copy_evt :: "loop_ctx \<Rightarrow> loop_ctx" where
  "copy_evt l = l\<lparr>bitmap_evt_sync := bitmap_evt_sync l OR bitmap_evt_async l, bitmap_evt_async := 0\<rparr>"

text \<open>
  \<open>_bloop_wait\<close> over what the other tasks do. An element of the environment is one pass of the
  \<open>copy_evt\<close> loop: the tick at the time-out check, the tick and the clock of the expiry pass, and
  the asynchronous posts made while the task is blocked in \<open>ulTaskNotifyTake\<close>. \<open>Inl\<close> is a task
  still blocked at the end of the environment.
\<close>

record wait_env =
  tick :: u32
  tick_now :: u32
  tick_repeat :: "addr \<Rightarrow> u32"
  posts :: "(nat \<times> u32) list"

fun post_all :: "(nat \<times> u32) list \<Rightarrow> loop_ctx \<Rightarrow> loop_ctx option" where
  "post_all [] l = Some l"
| "post_all ((e, m) # ps) l = do { l \<leftarrow> bloop_evt_set_async l e m; post_all ps l }"

fun bloop_wait :: "(addr \<Rightarrow> addr \<Rightarrow> ptr \<Rightarrow> world \<Rightarrow> world) \<Rightarrow> wait_env list \<Rightarrow> world \<Rightarrow> (world + world) option" where
  "bloop_wait cbs [] w = Some (Inl w)"
| "bloop_wait cbs (e # es) w =
     (let w = w\<lparr>ctx := copy_evt (ctx w)\<rparr>; head = timer_dlist (ctx w) in
      if bitmap_evt_sync (ctx w) = 0 \<and>
         (utils_dlist_empty (links w) head \<or>
          int_diff (time_target (timers w (utils_dlist_first (links w) head))) (tick e) > 0)
      then do { l \<leftarrow> post_all (posts e) (ctx w); bloop_wait cbs es (w\<lparr>ctx := l\<rparr>) }
      else do { w \<leftarrow> handle_timer cbs (tick_now e) (tick_repeat e) w; Some (Inr w) })"

section \<open>Dispatch\<close>

text \<open>\<open>clz0\<close> stands for \<open>__builtin_clz(0)\<close>, which the compiler leaves undefined.\<close>

definition builtin_clz :: "int \<Rightarrow> u32 \<Rightarrow> int" where
  "builtin_clz clz0 x = (if x = 0 then clz0 else int (length (takeWhile (\<lambda>i. \<not> bit x i) (rev [0..<32]))))"

definition evt_highest :: "int \<Rightarrow> loop_ctx \<Rightarrow> int" where
  "evt_highest clz0 l = 31 - builtin_clz clz0 (bitmap_evt_sync l)"

definition msg_highest :: "int \<Rightarrow> loop_ctx \<Rightarrow> int" where
  "msg_highest clz0 l = 31 - builtin_clz clz0 (bitmap_msg l)"

definition evt_handle_begin :: "world \<Rightarrow> nat \<Rightarrow> (addr \<times> world) option" where
  "evt_handle_begin w e = do {
     handler \<leftarrow> handlers (ctx w) ! e;
     let l = ctx w;
     let l = l\<lparr>evt_type_map_sync := (evt_type_map_sync l)[e := evt_type_map_sync l ! e OR evt_type_map_async l ! e]\<rparr>;
     let l = l\<lparr>evt_type_map_async := (evt_type_map_async l)[e := 0]\<rparr>;
     Some (handler, w\<lparr>ctx := l\<rparr>)
   }"

definition evt_statistic :: "u32 \<Rightarrow> loop_evt_handler_statistic \<Rightarrow> loop_evt_handler_statistic" where
  "evt_statistic consumed s =
     (let s = s\<lparr>time_consumed := consumed\<rparr>;
          s = s\<lparr>time_accumulated := time_accumulated s + time_consumed s\<rparr>;
          s = (if time_max s < time_consumed s then s\<lparr>time_max := time_consumed s\<rparr> else s)
      in s\<lparr>count_triggered := count_triggered s + 1\<rparr>)"

definition evt_handle_end :: "u32 \<Rightarrow> world \<Rightarrow> nat \<Rightarrow> world option" where
  "evt_handle_end consumed w e = do {
     let l = (ctx w)\<lparr>statistic := (statistic (ctx w))[e := evt_statistic consumed (statistic (ctx w) ! e)]\<rparr>;
     l \<leftarrow> bloop_evt_unset_sync l e;
     Some (w\<lparr>ctx := l\<rparr>)
   }"

text \<open>
  \<open>evts\<close> is what the handler at an address does to the world (it is given pointers to the bitmap
  and the type map inside it), \<open>t0\<close> and \<open>t1\<close> are \<open>bl_timer_now_us\<close> before and after it.
\<close>

definition evt_handle :: "(addr \<Rightarrow> nat \<Rightarrow> world \<Rightarrow> world) \<Rightarrow> u32 \<Rightarrow> u32 \<Rightarrow> world \<Rightarrow> nat \<Rightarrow> world option" where
  "evt_handle evts t0 t1 w e = do {
     (handler, w) \<leftarrow> evt_handle_begin w e;
     evt_handle_end (t1 - t0) (evts handler e w) e
   }"

definition msg_handle :: "world \<Rightarrow> nat \<Rightarrow> world option" where
  "msg_handle w highest_msg = do {
     (msg, l) \<leftarrow> utils_list_pop_front (hdr_heap w) (msg_lists (ctx w) ! highest_msg);
     if msg = NULL then None
     else Some (w\<lparr>ctx := (ctx w)\<lparr>msg_lists := (msg_lists (ctx w))[highest_msg := l]\<rparr>\<rparr>)
   }"

definition bloop_dispatch :: "int \<Rightarrow> (addr \<Rightarrow> nat \<Rightarrow> world \<Rightarrow> world) \<Rightarrow> u32 \<Rightarrow> u32 \<Rightarrow> world \<Rightarrow> world option" where
  "bloop_dispatch clz0 evts t0 t1 w =
     (let highest_evt = evt_highest clz0 (ctx w); highest_msg = msg_highest clz0 (ctx w) in
      if highest_evt \<ge> highest_msg \<and> highest_evt \<ge> 0 then evt_handle evts t0 t1 w (nat highest_evt)
      else if highest_msg \<ge> 0 then msg_handle w (nat highest_msg)
      else Some w)"

text \<open>Rounds of \<open>bloop_run\<close>, one environment and two clock readings each; it stops when blocked.\<close>

fun bloop_rounds ::
  "int \<Rightarrow> (addr \<Rightarrow> addr \<Rightarrow> ptr \<Rightarrow> world \<Rightarrow> world) \<Rightarrow> (addr \<Rightarrow> nat \<Rightarrow> world \<Rightarrow> world) \<Rightarrow>
   (wait_env list \<times> u32 \<times> u32) list \<Rightarrow> world \<Rightarrow> world option" where
  "bloop_rounds clz0 cbs evts [] w = Some w"
| "bloop_rounds clz0 cbs evts ((es, t0, t1) # rs) w = do {
     r \<leftarrow> bloop_wait cbs es w;
     case r of Inl w \<Rightarrow> Some w
     | Inr w \<Rightarrow> do { w \<leftarrow> bloop_dispatch clz0 evts t0 t1 w; bloop_rounds clz0 cbs evts rs w }
   }"

definition bloop_run ::
  "int \<Rightarrow> (addr \<Rightarrow> addr \<Rightarrow> ptr \<Rightarrow> world \<Rightarrow> world) \<Rightarrow> (addr \<Rightarrow> nat \<Rightarrow> world \<Rightarrow> world) \<Rightarrow> ptr \<Rightarrow>
   (wait_env list \<times> u32 \<times> u32) list \<Rightarrow> world \<Rightarrow> world option" where
  "bloop_run clz0 cbs evts task rs w = bloop_rounds clz0 cbs evts rs (w\<lparr>ctx := (ctx w)\<lparr>looper := task\<rparr>\<rparr>)"

section \<open>The built-in handler and the runtime loop\<close>

definition LOOP_TASK_SYS_EVT_DUMP :: u32 where "LOOP_TASK_SYS_EVT_DUMP = push_bit 0 1"

text \<open>The number of \<open>bloop_status_dump\<close> calls; the type map is zeroed afterwards.\<close>

partial_function (option) sys_evt_redo :: "u32 \<Rightarrow> nat \<Rightarrow> nat option" where
  "sys_evt_redo mp dumps =
     (if mp AND LOOP_TASK_SYS_EVT_DUMP \<noteq> 0 then
        let mp = mp AND NOT LOOP_TASK_SYS_EVT_DUMP in
        if mp \<noteq> 0 then sys_evt_redo mp (dumps + 1) else Some (dumps + 1)
      else if mp = 0 then Some dumps else None)"

declare sys_evt_redo.simps [code]

definition loop_evt_entity_sys_evt :: "u32 \<Rightarrow> (int \<times> u32 \<times> nat) option" where
  "loop_evt_entity_sys_evt evt_map = do { dumps \<leftarrow> sys_evt_redo evt_map 0; Some (0, 0, dumps) }"

definition looprt_evt_notify_async :: "world \<Rightarrow> nat \<Rightarrow> u32 \<Rightarrow> world option" where
  "looprt_evt_notify_async w task evt_map = do { l \<leftarrow> bloop_evt_set_async (ctx w) task evt_map; Some (w\<lparr>ctx := l\<rparr>) }"

definition looprt_evt_schedule :: "ptr \<Rightarrow> u32 \<Rightarrow> world \<Rightarrow> int \<Rightarrow> u32 \<Rightarrow> int \<Rightarrow> world option" where
  "looprt_evt_schedule malloc now w task evt_map delay_ms = (case malloc of
      None \<Rightarrow> Some w
    | Some timer \<Rightarrow>
        let w = bloop_timer_init w timer 1;
            w = w\<lparr>timers := (timers w)(timer :=
                  bloop_timer_configure now (timers w timer) (word_of_int delay_ms) NULL NULL task evt_map)\<rparr>
        in bloop_timer_register w timer)"

definition looprt_start :: "ptr \<Rightarrow> world \<Rightarrow> int \<times> world" where
  "looprt_start bloop_handler_sys w =
     (let w = snd (bloop_init w);
          l = snd (bloop_handler_register (ctx w) bloop_handler_sys LOOP_TASK_PRIORITY_HIGHEST)
      in (0, w\<lparr>ctx := l\<rparr>))"

definition looprt_handler_register :: "world \<Rightarrow> ptr \<Rightarrow> int \<Rightarrow> int \<times> world" where
  "looprt_handler_register w handler priority =
     (if looper (ctx w) = NULL then (-1, w)
      else let (r, l) = bloop_handler_register (ctx w) handler priority in (r, w\<lparr>ctx := l\<rparr>))"

definition looprt_timer_register :: "world \<Rightarrow> addr \<Rightarrow> (int \<times> world) option" where
  "looprt_timer_register w timer = do { w \<leftarrow> bloop_timer_register w timer; Some (0, w) }"

end
