(* ===== verification/Bloop_Props.thy ===== *)
theory Bloop_Props
  imports Bloop
begin

unbundle bit_operations_syntax

text \<open>
  Correctness of the event loop: registration keeps the timer list ascending, an expiry pass fires
  exactly the due timers and rearms the repeating ones, and the bookkeeping of the two event
  bitmaps loses no event under any interleaving with asynchronous posts.
\<close>

section \<open>Tick arithmetic\<close>

lemma sint_diff_small:
  fixes u v :: u32
  assumes "unat u < 2 ^ 31" and "unat v < 2 ^ 31"
  shows "sint (u - v) = int (unat u) - int (unat v)"
proof -
  have "u - v = word_of_int (int (unat u) - int (unat v))" by simp
  moreover have i: "int (unat x) < 2 ^ 31" if "unat x < 2 ^ 31" for x :: u32
    using that by (metis of_nat_less_iff of_nat_numeral of_nat_power)
  have b: "- (2 ^ 31) \<le> int (unat u) - int (unat v)" using i [OF assms(2)] of_nat_0_le_iff [of "unat u", where 'a = int] by linarith
  have c: "int (unat u) - int (unat v) < 2 ^ 31" using i [OF assms(1)] of_nat_0_le_iff [of "unat v", where 'a = int] by linarith
  ultimately show ?thesis using signed_take_bit_int_eq_self [OF b c] sint_sbintrunc' [of "int (unat u) - int (unat v)", where 'a = 32]
    by simp
qed

definition after :: "u32 \<Rightarrow> u32 \<Rightarrow> nat" where "after base t = unat (t - base)"

lemma int_diff_after:
  assumes "after base a < 2 ^ 31" and "after base b < 2 ^ 31"
  shows "int_diff a b = int (after base a) - int (after base b)"
  using sint_diff_small [of "a - base" "b - base"] assms by (simp add: int_diff_def after_def)

section \<open>Registration\<close>

definition ins_timer :: "(addr \<Rightarrow> loop_timer) \<Rightarrow> addr \<Rightarrow> addr list \<Rightarrow> addr list" where
  "ins_timer T x xs =
     (let P = (\<lambda>y. int_diff (time_target (T x)) (time_target (T y)) > 0) in takeWhile P xs @ x # dropWhile P xs)"

lemma register_walk_list:
  assumes "dl_list d head (as @ bs)"
  shows "register_walk d T head x (hd (bs @ [head])) (if as = [] then NULL else Some (last as)) =
    (let cs = takeWhile (\<lambda>y. int_diff (time_target (T x)) (time_target (T y)) > 0) bs
     in Some (cs \<noteq> bs, if as @ cs = [] then NULL else Some (last (as @ cs))))"
  using assms
proof (induction bs arbitrary: as)
  case Nil
  then show ?case by (subst register_walk.simps) simp
next
  case (Cons b bs)
  have "b \<noteq> head" using Cons.prems by (auto dest: dl_list_distinct)
  moreover have "d_next d b = hd (bs @ [head])" using dl_list_next [OF Cons.prems] .
  ultimately show ?case
    using Cons.IH [of "as @ [b]"] Cons.prems by (subst register_walk.simps) (auto simp: Let_def)
qed

lemma dl_list_add_frame:
  assumes "dl_list d h1 ys" and "dl_list d h2 (as @ bs)" and "p = last (h2 # as)"
    and "set (h1 # ys) \<inter> set (h2 # as @ bs) = {}" and "n \<notin> set (h1 # ys)"
  shows "dl_list (utils_dlist_add d n p) h1 ys"
proof -
  have p: "p \<in> set (h2 # as)" unfolding assms(3) by (rule last_in_set) simp
  have "d_next d p \<in> set (h2 # as @ bs)"
  proof (cases as rule: rev_cases)
    case Nil
    then show ?thesis using assms(2,3) by (cases bs) (auto simp: dl_list_def)
  next
    case (snoc zs y)
    then show ?thesis using assms(2,3) dl_list_next [of d h2 zs y bs] by (cases bs) auto
  qed
  then show ?thesis using assms p by (intro dl_list_add_other) auto
qed

lemma timer_register_list:
  assumes "dl_list (links w) (timer_dlist (ctx w)) xs" and "x \<notin> set (timer_dlist (ctx w) # xs)"
  shows "\<exists>d. bloop_timer_register w x = Some (w\<lparr>links := d\<rparr>) \<and>
    dl_list d (timer_dlist (ctx w)) (ins_timer (timers w) x xs) \<and>
    (\<forall>h ys. dl_list (links w) h ys \<longrightarrow> set (h # ys) \<inter> set (timer_dlist (ctx w) # xs) = {} \<longrightarrow> x \<notin> set (h # ys) \<longrightarrow>
       dl_list d h ys)"
proof -
  let ?d = "links w" and ?h = "timer_dlist (ctx w)"
  let ?P = "\<lambda>y. int_diff (time_target (timers w x)) (time_target (timers w y)) > 0"
  define cs where "cs = takeWhile ?P xs"
  define p where "p = last (?h # cs)"
  have xs: "xs = cs @ dropWhile ?P xs" by (simp add: cs_def)
  have "bloop_timer_register w x = Some (w\<lparr>links := utils_dlist_add ?d x p\<rparr>)"
  proof (cases "xs = []")
    case True
    then show ?thesis using assms(1) dl_list_empty [OF assms(1)] by (simp add: bloop_timer_register_def cs_def p_def Let_def)
  next
    case False
    then have "register_walk ?d (timers w) ?h x (d_next ?d ?h) NULL = Some (cs \<noteq> xs, if cs = [] then NULL else Some (last cs))"
      using register_walk_list [of ?d ?h "[]" xs "timers w" x] assms(1) dl_list_first [of ?d ?h "hd xs" "tl xs"]
      by (simp add: Let_def cs_def utils_dlist_first_def)
    then show ?thesis
      using False dl_list_empty [OF assms(1)] by (auto simp: bloop_timer_register_def Let_def p_def)
  qed
  moreover have "dl_list (utils_dlist_add ?d x p) ?h (cs @ x # dropWhile ?P xs)"
    using assms xs by (intro dl_list_add_after) (auto simp: p_def)
  moreover have "dl_list (utils_dlist_add ?d x p) h ys"
    if "dl_list ?d h ys" "set (h # ys) \<inter> set (?h # xs) = {}" "x \<notin> set (h # ys)" for h ys
    using that xs assms(1) dl_list_add_frame [of ?d h ys ?h cs "dropWhile ?P xs" p x] by (simp add: p_def)
  ultimately show ?thesis unfolding ins_timer_def Let_def cs_def by blast
qed

definition key :: "u32 \<Rightarrow> (addr \<Rightarrow> loop_timer) \<Rightarrow> addr \<Rightarrow> nat" where
  "key base T a = after base (time_target (T a))"

definition asc :: "u32 \<Rightarrow> (addr \<Rightarrow> loop_timer) \<Rightarrow> addr list \<Rightarrow> bool" where
  "asc base T xs \<longleftrightarrow> sorted (map (key base T) xs) \<and> (\<forall>a\<in>set xs. key base T a < 2 ^ 31)"

lemma set_ins_timer: "set (ins_timer T x xs) = insert x (set xs)"
proof -
  have "set (takeWhile P xs) \<union> set (dropWhile P xs) = set xs" for P :: "addr \<Rightarrow> bool"
    by (metis set_append takeWhile_dropWhile_id)
  then show ?thesis unfolding ins_timer_def Let_def by auto
qed

lemma distinct_ins_timer: "distinct xs \<Longrightarrow> x \<notin> set xs \<Longrightarrow> distinct (ins_timer T x xs)"
proof -
  assume a: "distinct xs" "x \<notin> set xs"
  have "distinct (takeWhile P xs @ dropWhile P xs)" for P :: "addr \<Rightarrow> bool" using a(1) by simp
  then show ?thesis using a(2) unfolding ins_timer_def Let_def distinct_append
    by (auto dest: set_takeWhileD set_dropWhileD)
qed

lemma asc_ins_timer:
  assumes "asc base T xs" and "key base T x < 2 ^ 31"
  shows "asc base T (ins_timer T x xs)"
proof -
  let ?k = "key base T"
  have d: "int_diff (time_target (T x)) (time_target (T y)) > 0 \<longleftrightarrow> ?k y < ?k x" if "y \<in> set xs" for y
    using int_diff_after [of base "time_target (T x)" "time_target (T y)"] assms that by (auto simp: key_def asc_def)
  have i: "ins_timer T x xs = takeWhile (\<lambda>y. ?k y < ?k x) xs @ x # dropWhile (\<lambda>y. ?k y < ?k x) xs"
    unfolding ins_timer_def Let_def using d by (auto cong: takeWhile_cong dropWhile_cong)
  have "sorted (map ?k xs) \<Longrightarrow> sorted (map ?k (takeWhile (\<lambda>y. ?k y < ?k x) xs @ x # dropWhile (\<lambda>y. ?k y < ?k x) xs))"
  proof (induction xs)
    case (Cons y ys)
    then show ?case by (auto dest!: set_takeWhileD set_dropWhileD)
  qed simp
  then show ?thesis using assms i set_ins_timer [of T x xs] by (auto simp: asc_def)
qed

section \<open>Expiry\<close>

definition pending :: "loop_ctx \<Rightarrow> nat \<Rightarrow> u32 \<Rightarrow> bool" where
  "pending l e m \<longleftrightarrow> bit (bitmap_evt_sync l) e \<and> evt_type_map_async l ! e AND m = m"

text \<open>What the timer callbacks may do: post events, but leave the timers, their lists and \<open>vPortFree\<close> alone.\<close>

definition quiet :: "world \<Rightarrow> world \<Rightarrow> bool" where
  "quiet w w' \<longleftrightarrow> links w' = links w \<and> timers w' = timers w \<and> freed w' = freed w \<and>
     timer_dlist (ctx w') = timer_dlist (ctx w) \<and> timer_dued (ctx w') = timer_dued (ctx w) \<and>
     length (evt_type_map_async (ctx w')) = length (evt_type_map_async (ctx w)) \<and>
     (\<forall>e<LOOP_TASK_MAX. \<forall>m. pending (ctx w) e m \<longrightarrow> pending (ctx w') e m)"

definition quiet_cbs :: "(addr \<Rightarrow> addr \<Rightarrow> ptr \<Rightarrow> world \<Rightarrow> world) \<Rightarrow> bool" where
  "quiet_cbs cbs \<longleftrightarrow> (\<forall>f a arg w. quiet w (cbs f a arg w))"

lemma set_sync_pending:
  assumes "length (evt_type_map_async l) = LOOP_TASK_MAX" and "e < LOOP_TASK_MAX"
  shows "\<exists>l'. bloop_evt_set_sync l e m = Some l' \<and> pending l' e m \<and>
    (\<forall>e'<LOOP_TASK_MAX. \<forall>m'. pending l e' m' \<longrightarrow> pending l' e' m') \<and>
    length (evt_type_map_async l') = LOOP_TASK_MAX \<and>
    timer_dlist l' = timer_dlist l \<and> timer_dued l' = timer_dued l"
proof -
  have or: "(x OR m) AND m = m" for x :: u32 by (rule bit_eqI) (auto simp: bit_simps)
  have mono: "(x OR m) AND y = y" if "x AND y = y" for x y :: u32
  proof -
    have "bit y n \<Longrightarrow> bit x n" for n using that by (metis bit_and_iff)
    then show ?thesis by (intro bit_eqI) (auto simp: bit_simps)
  qed
  let ?l = "l\<lparr>bitmap_evt_sync := bitmap_evt_sync l OR push_bit e 1,
                evt_type_map_async := (evt_type_map_async l)[e := evt_type_map_async l ! e OR m]\<rparr>"
  have b: "bit (bitmap_evt_sync ?l) i \<longleftrightarrow> bit (bitmap_evt_sync l) i \<or> i = e" for i
    using assms(2) by (auto simp: bit_simps LOOP_TASK_MAX_def)
  have "pending ?l e m" unfolding pending_def b using assms or by simp
  moreover have "pending ?l e' m'" if "pending l e' m'" "e' < LOOP_TASK_MAX" for e' m'
    using that assms mono unfolding pending_def b by (cases "e' = e") auto
  ultimately show ?thesis using assms by (simp add: bloop_evt_set_sync_def)
qed

definition due :: "u32 \<Rightarrow> (addr \<Rightarrow> loop_timer) \<Rightarrow> addr \<Rightarrow> bool" where
  "due now T a \<longleftrightarrow> int_diff now (time_target (T a)) \<ge> 0"

definition good_idx :: "(addr \<Rightarrow> loop_timer) \<Rightarrow> addr \<Rightarrow> bool" where
  "good_idx T a \<longleftrightarrow> 0 \<le> idx_task (T a) \<and> idx_task (T a) < int LOOP_TASK_MAX"

text \<open>The two timer rings of a loop, disjoint.\<close>

definition rings :: "world \<Rightarrow> addr list \<Rightarrow> addr list \<Rightarrow> bool" where
  "rings w xs ys \<longleftrightarrow> dl_list (links w) (timer_dlist (ctx w)) xs \<and> dl_list (links w) (timer_dued (ctx w)) ys \<and>
     set (timer_dlist (ctx w) # xs) \<inter> set (timer_dued (ctx w) # ys) = {}"

definition same_but_events :: "world \<Rightarrow> world \<Rightarrow> bool" where
  "same_but_events w w' \<longleftrightarrow> timers w' = timers w \<and> freed w' = freed w \<and>
     timer_dlist (ctx w') = timer_dlist (ctx w) \<and> timer_dued (ctx w') = timer_dued (ctx w) \<and>
     length (evt_type_map_async (ctx w')) = length (evt_type_map_async (ctx w)) \<and>
     (\<forall>e<LOOP_TASK_MAX. \<forall>m. pending (ctx w) e m \<longrightarrow> pending (ctx w') e m)"

lemma same_trans: "same_but_events u v \<Longrightarrow> same_but_events v w \<Longrightarrow> same_but_events u w"
  by (simp add: same_but_events_def)

lemma idx_unat: "good_idx T a \<Longrightarrow> unat (word_of_int (idx_task (T a)) :: u32) = nat (idx_task (T a))"
proof -
  assume "good_idx T a"
  then obtain n where "idx_task (T a) = int n" "n < 32" by (auto simp: good_idx_def LOOP_TASK_MAX_def elim: nonneg_int_cases)
  then show ?thesis by (simp add: unat_of_nat)
qed

lemma is_up_step:
  assumes "rings w (x # xs) ys" and "quiet_cbs cbs" and "good_idx (timers w) x"
    and "length (evt_type_map_async (ctx w)) = LOOP_TASK_MAX"
  shows "\<exists>w'. timer_is_up_handle cbs w x = Some w' \<and> rings w' xs (x # ys) \<and> same_but_events w w' \<and>
    pending (ctx w') (nat (idx_task (timers w x))) (evt_type_map (timers w x))"
proof -
  let ?e = "nat (idx_task (timers w x))" and ?m = "evt_type_map (timers w x)"
  have e: "?e < LOOP_TASK_MAX" using assms(3) by (auto simp: good_idx_def)
  obtain l where l: "bloop_evt_set_sync (ctx w) ?e ?m = Some l" "pending l ?e ?m"
    "\<forall>e'<LOOP_TASK_MAX. \<forall>m'. pending (ctx w) e' m' \<longrightarrow> pending l e' m'" "length (evt_type_map_async l) = LOOP_TASK_MAX"
    "timer_dlist l = timer_dlist (ctx w)" "timer_dued l = timer_dued (ctx w)"
    using set_sync_pending [OF assms(4) e, of ?m] by blast
  define w1 where "w1 = (case t_cb (timers w x) of None \<Rightarrow> w\<lparr>ctx := l\<rparr> | Some f \<Rightarrow> cbs f x (t_arg (timers w x)) (w\<lparr>ctx := l\<rparr>))"
  have q: "quiet (w\<lparr>ctx := l\<rparr>) w1" using assms(2) by (cases "t_cb (timers w x)") (auto simp: w1_def quiet_cbs_def quiet_def)
  define d where "d = utils_dlist_add (utils_dlist_del (links w) x) x (timer_dued (ctx w))"
  have r: "dl_list (links w) (timer_dlist (ctx w)) (x # xs)" "dl_list (links w) (timer_dued (ctx w)) ys"
    "set (timer_dlist (ctx w) # x # xs) \<inter> set (timer_dued (ctx w) # ys) = {}" using assms(1) by (auto simp: rings_def)
  have "dl_list (utils_dlist_del (links w) x) (timer_dlist (ctx w)) xs"
    using dl_list_del [of "links w" _ "[]" x xs] r(1) by simp
  moreover have "dl_list (utils_dlist_del (links w) x) (timer_dued (ctx w)) ys"
    using dl_list_del_other [OF r(2), of "timer_dlist (ctx w)" "[]" x xs] r by (simp add: Int_commute)
  moreover have "x \<notin> set (timer_dlist (ctx w) # xs)" "x \<notin> set (timer_dued (ctx w) # ys)"
    using dl_list_distinct [OF r(1)] r(3) by auto
  ultimately have "dl_list d (timer_dlist (ctx w)) xs" "dl_list d (timer_dued (ctx w)) (x # ys)"
    using r(3) unfolding d_def
    by (auto intro!: dl_list_add_head dl_list_add_frame [of _ _ _ "timer_dued (ctx w)" "[]" ys])
  moreover have "timer_is_up_handle cbs w x = Some (w1\<lparr>links := d\<rparr>)"
    using l q assms(3) by (simp add: timer_is_up_handle_def idx_unat w1_def d_def quiet_def Let_def split: option.splits)
  ultimately show ?thesis using q l e r(3) dl_list_distinct [OF r(1)] assms(4)
    by (intro exI [of _ "w1\<lparr>links := d\<rparr>"]) (auto simp: rings_def same_but_events_def quiet_def)
qed

lemma up_loop_list:
  assumes "rings w xs ys" and "quiet_cbs cbs" and "\<forall>a\<in>set xs. good_idx (timers w) a"
    and "length (evt_type_map_async (ctx w)) = LOOP_TASK_MAX"
  shows "\<exists>w'. timer_up_loop cbs now w (hd (xs @ [timer_dlist (ctx w)])) (d_next (links w) (hd (xs @ [timer_dlist (ctx w)]))) = Some w' \<and>
    rings w' (dropWhile (due now (timers w)) xs) (rev (takeWhile (due now (timers w)) xs) @ ys) \<and> same_but_events w w' \<and>
    (\<forall>a\<in>set (takeWhile (due now (timers w)) xs). pending (ctx w') (nat (idx_task (timers w a))) (evt_type_map (timers w a)))"
  using assms
proof (induction xs arbitrary: w ys)
  case Nil
  then show ?case by (subst timer_up_loop.simps) (simp add: same_but_events_def)
next
  case (Cons x xs)
  have ne: "x \<noteq> timer_dlist (ctx w)" and nx: "d_next (links w) x = hd (xs @ [timer_dlist (ctx w)])"
    using Cons.prems(1) dl_list_distinct [of "links w" "timer_dlist (ctx w)" "x # xs"] dl_list_next [of "links w" "timer_dlist (ctx w)" "[]" x xs] by (auto simp: rings_def)
  show ?case
  proof (cases "due now (timers w) x")
    case False
    then show ?thesis using ne Cons.prems(1) by (subst timer_up_loop.simps) (simp add: due_def same_but_events_def)
  next
    case True
    obtain w1 where w1: "timer_is_up_handle cbs w x = Some w1" "rings w1 xs (x # ys)" "same_but_events w w1"
      "pending (ctx w1) (nat (idx_task (timers w x))) (evt_type_map (timers w x))"
      using is_up_step [OF Cons.prems(1,2) _ Cons.prems(4)] Cons.prems(3) by auto
    have h: "timer_dlist (ctx w1) = timer_dlist (ctx w)" "timers w1 = timers w"
      "length (evt_type_map_async (ctx w1)) = LOOP_TASK_MAX" using w1(3) Cons.prems(4) by (auto simp: same_but_events_def)
    obtain w2 where w2: "timer_up_loop cbs now w1 (hd (xs @ [timer_dlist (ctx w)])) (d_next (links w1) (hd (xs @ [timer_dlist (ctx w)]))) = Some w2"
      "rings w2 (dropWhile (due now (timers w)) xs) (rev (takeWhile (due now (timers w)) xs) @ x # ys)" "same_but_events w1 w2"
      "\<forall>a\<in>set (takeWhile (due now (timers w)) xs). pending (ctx w2) (nat (idx_task (timers w a))) (evt_type_map (timers w a))"
      using Cons.IH [OF w1(2) Cons.prems(2) _ h(3)] Cons.prems(3) h by auto
    have "pending (ctx w2) (nat (idx_task (timers w x))) (evt_type_map (timers w x))"
      using w2(3) w1(4) Cons.prems(3) by (auto simp: same_but_events_def good_idx_def)
    then show ?thesis using ne nx True w1 w2 same_trans [OF w1(3) w2(3)]
      by (subst timer_up_loop.simps) (auto simp: due_def)
  qed
qed

fun dued_spec :: "(addr \<Rightarrow> u32) \<Rightarrow> (addr \<Rightarrow> loop_timer) \<Rightarrow> addr list \<Rightarrow> addr list \<Rightarrow> (addr \<Rightarrow> loop_timer) \<times> addr list \<times> addr list" where
  "dued_spec clock T xs [] = (T, xs, [])"
| "dued_spec clock T xs (z # zs) =
     (if LOOP_TIMER_IS_AUTO_FREE (T z) then let (T, xs, fs) = dued_spec clock T xs zs in (T, xs, z # fs)
      else if LOOP_TIMER_IS_AUTO_REPEAT (T z) then
        let T = T(z := bloop_timer_repeat_reconfigure (clock z) (T z)) in dued_spec clock T (ins_timer T z xs) zs
      else dued_spec clock T xs zs)"

lemma dued_loop_list:
  assumes "rings w xs zs"
  shows "\<exists>w' T xs' fs. timer_dued_loop clock w (hd (zs @ [timer_dued (ctx w)])) (d_next (links w) (hd (zs @ [timer_dued (ctx w)]))) = Some w' \<and>
    dued_spec clock (timers w) xs zs = (T, xs', fs) \<and> rings w' xs' [] \<and> timers w' = T \<and> freed w' = freed w @ fs \<and> ctx w' = ctx w"
  using assms
proof (induction zs arbitrary: w xs)
  case Nil
  then show ?case by (subst timer_dued_loop.simps) simp
next
  case (Cons z zs)
  let ?D = "timer_dlist (ctx w)" and ?U = "timer_dued (ctx w)"
  have r: "dl_list (links w) ?D xs" "dl_list (links w) ?U (z # zs)" "set (?D # xs) \<inter> set (?U # z # zs) = {}"
    using Cons.prems by (auto simp: rings_def)
  have z: "z \<notin> set (?U # zs)" "z \<notin> set (?D # xs)" using dl_list_distinct [OF r(2)] r(3) by auto
  have nx: "d_next (links w) z = hd (zs @ [?U])" using dl_list_next [of "links w" ?U "[]" z zs] r(2) by simp
  define w1 where "w1 = w\<lparr>links := utils_dlist_del (links w) z\<rparr>"
  have r1: "rings w1 xs zs"
    using dl_list_del [of "links w" ?U "[]" z zs] dl_list_del_other [OF r(1), of ?U "[]" z zs] r
    by (auto simp: rings_def w1_def)
  show ?case
  proof (cases "LOOP_TIMER_IS_AUTO_FREE (timers w z)")
    case True
    have "rings (w1\<lparr>freed := freed w @ [z]\<rparr>) xs zs" using r1 by (simp add: rings_def)
    from Cons.IH [OF this] show ?thesis
      using z nx True by (subst timer_dued_loop.simps) (auto simp: Let_def w1_def)
  next
    case nf: False
    show ?thesis
    proof (cases "LOOP_TIMER_IS_AUTO_REPEAT (timers w z)")
      case True
      define w2 where "w2 = w1\<lparr>timers := (timers w)(z := bloop_timer_repeat_reconfigure (clock z) (timers w z))\<rparr>"
      have c: "ctx w2 = ctx w" by (simp add: w2_def w1_def)
      have "dl_list (links w2) ?D xs" and u: "dl_list (links w2) ?U zs" "set (?U # zs) \<inter> set (?D # xs) = {}"
        using r1 r(3) by (auto simp: rings_def w2_def w1_def)
      then obtain d where d: "bloop_timer_register w2 z = Some (w2\<lparr>links := d\<rparr>)"
        "dl_list d ?D (ins_timer (timers w2) z xs)" "dl_list d ?U zs"
        using timer_register_list [of w2 xs z, unfolded c, OF _ z(2)] u z(1) by blast
      then have "rings (w2\<lparr>links := d\<rparr>) (ins_timer (timers w2) z xs) zs"
        using r(3) z(1) by (auto simp: rings_def w2_def w1_def set_ins_timer)
      from Cons.IH [OF this] show ?thesis
        using z nx nf True d(1) by (subst timer_dued_loop.simps) (auto simp: Let_def w2_def w1_def simp del: fun_upd_apply)
    next
      case False
      from Cons.IH [OF r1] show ?thesis
        using z nx nf False by (subst timer_dued_loop.simps) (auto simp: Let_def w1_def)
    qed
  qed
qed

lemma handle_timer_list:
  assumes "rings w xs []" and "quiet_cbs cbs" and "\<forall>a\<in>set xs. good_idx (timers w) a"
    and "length (evt_type_map_async (ctx w)) = LOOP_TASK_MAX"
  shows "\<exists>w' T xs' fs. handle_timer cbs now clock w = Some w' \<and>
    dued_spec clock (timers w) (dropWhile (due now (timers w)) xs) (rev (takeWhile (due now (timers w)) xs)) = (T, xs', fs) \<and>
    rings w' xs' [] \<and> timers w' = T \<and> freed w' = freed w @ fs \<and>
    (\<forall>a\<in>set (takeWhile (due now (timers w)) xs). pending (ctx w') (nat (idx_task (timers w a))) (evt_type_map (timers w a)))"
proof (cases "xs = []")
  case True
  then show ?thesis using assms(1) dl_list_empty by (auto simp: handle_timer_def rings_def)
next
  case False
  let ?D = "timer_dlist (ctx w)"
  have e: "\<not> utils_dlist_empty (links w) ?D" using assms(1) False dl_list_empty by (auto simp: rings_def)
  have h: "d_next (links w) ?D = hd (xs @ [?D])" using assms(1) False by (cases xs) (auto simp: rings_def dl_list_def)
  obtain w1 where w1: "timer_up_loop cbs now w (hd (xs @ [?D])) (d_next (links w) (hd (xs @ [?D]))) = Some w1"
    "rings w1 (dropWhile (due now (timers w)) xs) (rev (takeWhile (due now (timers w)) xs))" "same_but_events w w1"
    "\<forall>a\<in>set (takeWhile (due now (timers w)) xs). pending (ctx w1) (nat (idx_task (timers w a))) (evt_type_map (timers w a))"
    using up_loop_list [OF assms] by auto
  let ?zs = "rev (takeWhile (due now (timers w)) xs)"
  have "d_next (links w1) (timer_dued (ctx w1)) = hd (?zs @ [timer_dued (ctx w1)])"
    using w1(2) unfolding rings_def dl_list_def by (auto dest!: dseg_first)
  then show ?thesis
    using dued_loop_list [OF w1(2), of clock] w1 e h
    by (auto simp: handle_timer_def timer_dued_clean_def Let_def same_but_events_def)
qed

lemma due_after:
  assumes "asc base T xs" and "after base now < 2 ^ 31" and "a \<in> set xs"
  shows "due now T a \<longleftrightarrow> key base T a \<le> after base now"
  using int_diff_after [of base now "time_target (T a)"] assms by (auto simp: due_def key_def asc_def)

lemma asc_due_prefix:
  assumes "asc base T xs" and "after base now < 2 ^ 31"
  shows "takeWhile (due now T) xs = filter (due now T) xs" "dropWhile (due now T) xs = filter (\<lambda>a. \<not> due now T a) xs"
proof -
  have "sorted (map (key base T) xs) \<Longrightarrow> (\<forall>a\<in>set xs. due now T a \<longleftrightarrow> key base T a \<le> after base now) \<Longrightarrow>
    takeWhile (due now T) xs = filter (due now T) xs \<and> dropWhile (due now T) xs = filter (\<lambda>a. \<not> due now T a) xs"
  proof (induction xs)
    case (Cons x xs)
    show ?case
    proof (cases "due now T x")
      case False
      then have "\<forall>a\<in>set xs. \<not> due now T a" using Cons.prems by auto
      then have "filter (due now T) xs = []" "filter (\<lambda>a. \<not> due now T a) xs = xs" by (auto simp: filter_empty_conv)
      with False show ?thesis by simp
    qed (use Cons in auto)
  qed simp
  then show "takeWhile (due now T) xs = filter (due now T) xs" "dropWhile (due now T) xs = filter (\<lambda>a. \<not> due now T a) xs"
    using assms(1) due_after [OF assms] by (auto simp: asc_def)
qed

definition rearmed :: "(addr \<Rightarrow> u32) \<Rightarrow> (addr \<Rightarrow> loop_timer) \<Rightarrow> addr \<Rightarrow> u32" where
  "rearmed clock T a = clock a + (time_target (T a) - time_added (T a))"

lemma dued_spec_effect:
  assumes "asc base T xs" and "distinct (xs @ zs)" and "\<forall>a\<in>set zs. after base (rearmed clock T a) < 2 ^ 31"
    and "dued_spec clock T xs zs = (T', xs', fs)"
  shows "asc base T' xs' \<and> distinct xs' \<and>
    set xs' = set xs \<union> {a\<in>set zs. \<not> LOOP_TIMER_IS_AUTO_FREE (T a) \<and> LOOP_TIMER_IS_AUTO_REPEAT (T a)} \<and>
    fs = filter (\<lambda>a. LOOP_TIMER_IS_AUTO_FREE (T a)) zs \<and>
    (\<forall>a. a \<notin> set zs \<longrightarrow> T' a = T a) \<and>
    (\<forall>a\<in>set zs. T' a = (if \<not> LOOP_TIMER_IS_AUTO_FREE (T a) \<and> LOOP_TIMER_IS_AUTO_REPEAT (T a)
       then (T a)\<lparr>time_added := clock a, time_target := rearmed clock T a\<rparr> else T a))"
  using assms
proof (induction clock T xs zs arbitrary: T' xs' fs rule: dued_spec.induct)
  case (2 clock T xs z zs)
  consider (free) "LOOP_TIMER_IS_AUTO_FREE (T z)" | (rep) "\<not> LOOP_TIMER_IS_AUTO_FREE (T z)" "LOOP_TIMER_IS_AUTO_REPEAT (T z)"
    | (none) "\<not> LOOP_TIMER_IS_AUTO_FREE (T z)" "\<not> LOOP_TIMER_IS_AUTO_REPEAT (T z)" by blast
  then show ?case
  proof cases
    case free
    then obtain fs2 where "dued_spec clock T xs zs = (T', xs', fs2)" "fs = z # fs2"
      using 2(7) by (auto split: prod.splits)
    then show ?thesis using 2(1) [OF free 2(4)] 2(5,6) free by auto
  next
    case rep
    define T2 where "T2 = T(z := bloop_timer_repeat_reconfigure (clock z) (T z))"
    have z: "z \<notin> set xs" "z \<notin> set zs" using 2(5) by auto
    have same: "T2 a = T a" if "a \<noteq> z" for a using that by (simp add: T2_def)
    have tz: "T2 z = (T z)\<lparr>time_added := clock z, time_target := rearmed clock T z\<rparr>"
      by (simp add: T2_def bloop_timer_repeat_reconfigure_def rearmed_def Let_def)
    have r: "\<forall>a\<in>set zs. T2 a = T a" "\<forall>a\<in>set xs. T2 a = T a" using z same by metis+
    then have k2: "\<forall>a\<in>set xs. key base T2 a = key base T a" by (simp add: key_def)
    then have "map (key base T2) xs = map (key base T) xs" by (metis map_eq_conv)
    then have "asc base T2 xs" using 2(4) k2 unfolding asc_def by metis
    moreover have "key base T2 z < 2 ^ 31" using 2(6) tz by (simp add: key_def)
    ultimately have a: "asc base T2 (ins_timer T2 z xs)" by (rule asc_ins_timer)
    have d: "distinct (ins_timer T2 z xs @ zs)" using 2(5) by (auto simp: set_ins_timer intro!: distinct_ins_timer)
    have k: "\<forall>a\<in>set zs. rearmed clock T2 a = rearmed clock T a" using r(1) by (simp add: rearmed_def)
    then have w: "\<forall>a\<in>set zs. after base (rearmed clock T2 a) < 2 ^ 31" using 2(6) by simp
    have e: "dued_spec clock T2 (ins_timer T2 z xs) zs = (T', xs', fs)" using 2(7) rep by (simp add: T2_def Let_def)
    have f: "filter (\<lambda>a. LOOP_TIMER_IS_AUTO_FREE (T2 a)) zs = filter (\<lambda>a. LOOP_TIMER_IS_AUTO_FREE (T a)) zs"
      using r(1) by (intro filter_cong) auto
    note ih = 2(2) [OF rep T2_def a d w e]
    have "{a\<in>set zs. \<not> LOOP_TIMER_IS_AUTO_FREE (T2 a) \<and> LOOP_TIMER_IS_AUTO_REPEAT (T2 a)} =
        {a\<in>set zs. \<not> LOOP_TIMER_IS_AUTO_FREE (T a) \<and> LOOP_TIMER_IS_AUTO_REPEAT (T a)}" using r(1) by auto
    moreover have "set xs' = set (ins_timer T2 z xs) \<union>
        {a\<in>set zs. \<not> LOOP_TIMER_IS_AUTO_FREE (T2 a) \<and> LOOP_TIMER_IS_AUTO_REPEAT (T2 a)}" using ih by blast
    ultimately have "set xs' = set xs \<union> {a\<in>set (z # zs). \<not> LOOP_TIMER_IS_AUTO_FREE (T a) \<and> LOOP_TIMER_IS_AUTO_REPEAT (T a)}"
      using rep unfolding set_ins_timer by auto
    moreover have "fs = filter (\<lambda>a. LOOP_TIMER_IS_AUTO_FREE (T a)) (z # zs)" using ih f rep(1) by simp
    moreover have "\<forall>a. a \<notin> set (z # zs) \<longrightarrow> T' a = T a" using ih same by simp
    moreover have "\<forall>a\<in>set zs. T' a = (if \<not> LOOP_TIMER_IS_AUTO_FREE (T a) \<and> LOOP_TIMER_IS_AUTO_REPEAT (T a)
       then (T a)\<lparr>time_added := clock a, time_target := rearmed clock T a\<rparr> else T a)"
      using ih r(1) k by simp
    moreover have "T' z = T2 z" using ih z(2) by blast
    ultimately show ?thesis using ih tz rep by simp
  next
    case none
    have z: "z \<notin> set zs" and d: "distinct (xs @ zs)" using 2(5) by auto
    have w: "\<forall>a\<in>set zs. after base (rearmed clock T a) < 2 ^ 31" using 2(6) by simp
    have e: "dued_spec clock T xs zs = (T', xs', fs)" using 2(7) none by simp
    note ih = 2(3) [OF none 2(4) d w e]
    have "{a\<in>set (z # zs). \<not> LOOP_TIMER_IS_AUTO_FREE (T a) \<and> LOOP_TIMER_IS_AUTO_REPEAT (T a)} =
        {a\<in>set zs. \<not> LOOP_TIMER_IS_AUTO_FREE (T a) \<and> LOOP_TIMER_IS_AUTO_REPEAT (T a)}" using none by auto
    moreover have "T' z = T z" using ih z by blast
    ultimately show ?thesis using ih none by simp
  qed
qed auto


definition sample_loop :: loop_ctx where
  "sample_loop = \<lparr>looper = NULL, bitmap_evt_async = 0, bitmap_evt_sync = 0, bitmap_msg = 0,
     evt_type_map_async = replicate LOOP_TASK_MAX 0, evt_type_map_sync = replicate LOOP_TASK_MAX 0,
     msg_lists = replicate LOOP_TASK_MAX \<lparr>ul_first = NULL, ul_last = NULL\<rparr>,
     statistic = replicate LOOP_TASK_MAX stat0, handlers = (replicate LOOP_TASK_MAX NULL)[5 := Some 77],
     timer_dlist = 1, timer_dued = 2\<rparr>"

definition sample_world :: world where
  "sample_world = \<lparr>links = utils_dlist_add (INIT_UTILS_DLIST_HEAD (INIT_UTILS_DLIST_HEAD \<lparr>d_prev = \<lambda>_. 0, d_next = \<lambda>_. 0\<rparr> 2) 1) 10 1,
     hdr_heap = \<lambda>_. NULL,
     timers = \<lambda>_. \<lparr>t_flags = 1, time_added = 0, time_target = 100, idx_task = 3, evt_type_map = 4, t_cb = NULL, t_arg = NULL\<rparr>,
     ctx = sample_loop, freed = []\<rparr>"

lemma sample_world_rings: "rings sample_world [10] []"
  by (simp add: rings_def sample_world_def sample_loop_def dl_list_def utils_dlist_add_def dlist_add_between_def
      INIT_UTILS_DLIST_HEAD_def Let_def)


section \<open>Events\<close>

lemma takeWhile_rev_upt:
  "bit x e \<Longrightarrow> e < n \<Longrightarrow> \<forall>i<n. e < i \<longrightarrow> \<not> bit x i \<Longrightarrow> length (takeWhile (\<lambda>i. \<not> bit x i) (rev [0..<n])) = n - Suc e"
  by (induction n) (auto simp: less_Suc_eq Suc_diff_Suc)

lemma evt_highest_max:
  assumes "bit (bitmap_evt_sync l) e" and "\<forall>i>e. \<not> bit (bitmap_evt_sync l) i"
  shows "evt_highest clz0 l = int e"
proof -
  have "e < 32" using assms(1) bit_imp_le_length by fastforce
  moreover have "bitmap_evt_sync l \<noteq> 0" using assms(1) by auto
  ultimately show ?thesis using takeWhile_rev_upt [of "bitmap_evt_sync l" e 32] assms
    by (simp add: evt_highest_def builtin_clz_def)
qed

text \<open>
  The looper and its environment as a transition system on the event state: other tasks and
  interrupts post at any moment, the timers post while the looper waits, a running handler may post
  to other events and rewrite its own type map.
\<close>

datatype pc = Waiting | Handling nat

inductive ev_step :: "world \<times> pc \<Rightarrow> world \<times> pc \<Rightarrow> bool" where
  post: "bloop_evt_set_async (ctx w) e m = Some l \<Longrightarrow> ev_step (w, pc) (w\<lparr>ctx := l\<rparr>, pc)"
| post_isr: "bloop_evt_set_async_fromISR (ctx w) e m = Some l \<Longrightarrow> ev_step (w, pc) (w\<lparr>ctx := l\<rparr>, pc)"
| copy: "ev_step (w, Waiting) (w\<lparr>ctx := copy_evt (ctx w)\<rparr>, Waiting)"
| timer: "bloop_evt_set_sync (ctx w) e m = Some l \<Longrightarrow> ev_step (w, Waiting) (w\<lparr>ctx := l\<rparr>, Waiting)"
| start: "bitmap_evt_sync (ctx w) \<noteq> 0 \<Longrightarrow> evt_highest clz0 (ctx w) = int e \<Longrightarrow>
    evt_handle_begin w e = Some (h, w') \<Longrightarrow> ev_step (w, Waiting) (w', Handling e)"
| handler_post: "e \<noteq> e' \<Longrightarrow> bloop_evt_set_sync (ctx w) e m = Some l \<Longrightarrow> ev_step (w, Handling e') (w\<lparr>ctx := l\<rparr>, Handling e')"
| handler_map: "ev_step (w, Handling e)
    (w\<lparr>ctx := (ctx w)\<lparr>evt_type_map_sync := (evt_type_map_sync (ctx w))[e := m]\<rparr>\<rparr>, Handling e)"
| finish: "evt_handle_end c w e = Some w' \<Longrightarrow> ev_step (w, Handling e) (w', Waiting)"

definition ev_ok :: "world \<times> pc \<Rightarrow> bool" where
  "ev_ok s \<longleftrightarrow> (case s of (w, pc) \<Rightarrow> length (evt_type_map_async (ctx w)) = LOOP_TASK_MAX \<and>
     (\<forall>e<LOOP_TASK_MAX. evt_type_map_async (ctx w) ! e \<noteq> 0 \<longrightarrow>
        bit (bitmap_evt_async (ctx w)) e \<or> bit (bitmap_evt_sync (ctx w)) e \<and> pc \<noteq> Handling e))"

lemma bit_or_shift: "e < 32 \<Longrightarrow> bit (x OR push_bit e 1) i \<longleftrightarrow> bit x i \<or> i = e" for x :: u32
  by (auto simp: bit_simps)

lemma set_async_iff:
  "bloop_evt_set_async_fromISR l e m = bloop_evt_set_async l e m"
  by (simp add: bloop_evt_set_async_fromISR_def bloop_evt_set_async_def)

lemma ev_post_ok:
  assumes "ev_ok (w, pc)" and "bloop_evt_set_async (ctx w) e m = Some l"
  shows "ev_ok (w\<lparr>ctx := l\<rparr>, pc)"
proof -
  have e: "e < 32" and l: "l = (ctx w)\<lparr>bitmap_evt_async := bitmap_evt_async (ctx w) OR push_bit e 1,
      evt_type_map_async := (evt_type_map_async (ctx w))[e := evt_type_map_async (ctx w) ! e OR m]\<rparr>"
    using assms(2) by (auto simp: bloop_evt_set_async_def LOOP_TASK_MAX_def split: if_splits)
  show ?thesis using assms(1) e unfolding ev_ok_def l
    by (auto simp: bit_or_shift nth_list_update simp del: push_bit_of_1 split: if_splits)
qed

lemma ev_sync_ok:
  assumes "ev_ok (w, pc)" and "bloop_evt_set_sync (ctx w) e m = Some l" and "pc \<noteq> Handling e"
  shows "ev_ok (w\<lparr>ctx := l\<rparr>, pc)"
proof -
  have e: "e < 32" and l: "l = (ctx w)\<lparr>bitmap_evt_sync := bitmap_evt_sync (ctx w) OR push_bit e 1,
      evt_type_map_async := (evt_type_map_async (ctx w))[e := evt_type_map_async (ctx w) ! e OR m]\<rparr>"
    using assms(2) by (auto simp: bloop_evt_set_sync_def LOOP_TASK_MAX_def split: if_splits)
  show ?thesis using assms(1,3) e unfolding ev_ok_def l
    by (auto simp: bit_or_shift nth_list_update simp del: push_bit_of_1 split: if_splits)
qed

lemma ev_step_ok: "ev_step s t \<Longrightarrow> ev_ok s \<Longrightarrow> ev_ok t"
proof (induction rule: ev_step.induct)
  case (copy w)
  then show ?case by (auto simp: ev_ok_def copy_evt_def bit_or_iff)
next
  case (start w clz0 e h w')
  then have a: "evt_type_map_async (ctx w') = (evt_type_map_async (ctx w))[e := 0]"
    "bitmap_evt_async (ctx w') = bitmap_evt_async (ctx w)" "bitmap_evt_sync (ctx w') = bitmap_evt_sync (ctx w)"
    by (auto simp: evt_handle_begin_def Let_def split: Option.bind_splits)
  have "evt_type_map_async (ctx w') ! i \<noteq> 0 \<Longrightarrow> i < LOOP_TASK_MAX \<Longrightarrow> i \<noteq> e \<and> evt_type_map_async (ctx w) ! i \<noteq> 0" for i
    using start.prems by (cases "i = e") (auto simp: a ev_ok_def)
  then show ?case using start.prems by (auto simp: ev_ok_def a)
next
  case (finish c w e w')
  then have e: "e < 32" and w': "w' = w\<lparr>ctx := (ctx w)\<lparr>
      statistic := (statistic (ctx w))[e := evt_statistic c (statistic (ctx w) ! e)],
      bitmap_evt_sync := bitmap_evt_sync (ctx w) AND NOT (push_bit e 1)\<rparr>\<rparr>"
    by (auto simp: evt_handle_end_def bloop_evt_unset_sync_def LOOP_TASK_MAX_def Let_def split: if_splits)
  have "bit (bitmap_evt_sync (ctx w) AND NOT (push_bit e 1)) i \<longleftrightarrow> bit (bitmap_evt_sync (ctx w)) i \<and> i \<noteq> e" for i
    using e by (auto simp: bit_simps dest: bit_imp_le_length)
  then show ?case using finish.prems unfolding ev_ok_def w' by auto
qed (auto simp: set_async_iff intro: ev_post_ok ev_sync_ok, auto simp: ev_ok_def)



text \<open>
  C28: a handler that posts to its own event with \<open>bloop_evt_set_sync\<close> while it runs loses that post:
  \<open>_evt_handle\<close> clears the flag after the handler returns, so the type bits stay behind in the
  asynchronous map with no flag set, unless another task posts the same event again.
\<close>

theorem bloop_self_post_lost:
  assumes "handlers (ctx w) ! e = Some h" and "e < LOOP_TASK_MAX" and "m \<noteq> 0"
    and "length (evt_type_map_async (ctx w)) = LOOP_TASK_MAX" and "\<not> bit (bitmap_evt_async (ctx w)) e"
    and "\<forall>w. evts h e w = w\<lparr>ctx := the (bloop_evt_set_sync (ctx w) e m)\<rparr>"
  shows "\<exists>w'. evt_handle evts t0 t1 w e = Some w' \<and> evt_type_map_async (ctx w') ! e = m \<and>
    \<not> bit (bitmap_evt_async (ctx w')) e \<and> \<not> bit (bitmap_evt_sync (ctx w')) e"
  using assms
  by (auto simp: evt_handle_def evt_handle_begin_def evt_handle_end_def bloop_evt_set_sync_def bloop_evt_unset_sync_def
      LOOP_TASK_MAX_def Let_def bit_simps)

theorem bloop_self_post_lost_witness:
  "\<exists>w'. evt_handle (\<lambda>_ e w. w\<lparr>ctx := the (bloop_evt_set_sync (ctx w) e 4)\<rparr>) 0 0 sample_world 5 = Some w' \<and>
    evt_type_map_async (ctx w') ! 5 = 4 \<and> \<not> bit (bitmap_evt_sync (ctx w')) 5"
  using bloop_self_post_lost [of sample_world 5 77 4 "\<lambda>_ e w. w\<lparr>ctx := the (bloop_evt_set_sync (ctx w) e 4)\<rparr>" 0 0]
  by (auto simp: sample_world_def sample_loop_def LOOP_TASK_MAX_def)

section \<open>Handler table\<close>

lemma register_scan_occupied: "hs ! p \<noteq> NULL \<Longrightarrow> register_scan hs p i n = i + n"
  by (induction n arbitrary: i) auto

text \<open>
  C27: \<open>bloop_handler_register\<close> succeeds exactly when the priority is in range and that very slot is
  free, and then fills it. The search for a later free slot never finds one, since every round looks
  at the slot of the requested priority. \<open>bloop_handler_unregister\<close> undoes a registration.
\<close>

theorem bloop_handler_register_exact:
  "(bloop_handler_register l h p =
     (if 0 \<le> p \<and> p < int LOOP_TASK_MAX \<and> handlers l ! nat p = NULL then (0, l\<lparr>handlers := (handlers l)[nat p := h]\<rparr>) else (-1, l))) \<and>
   (length (handlers l) = LOOP_TASK_MAX \<and> h \<noteq> NULL \<and> fst (bloop_handler_register l h p) = 0 \<longrightarrow>
     bloop_handler_unregister (snd (bloop_handler_register l h p)) h p = (0, l))"
proof -
  have r: "bloop_handler_register l h p =
     (if 0 \<le> p \<and> p < int LOOP_TASK_MAX \<and> handlers l ! nat p = NULL then (0, l\<lparr>handlers := (handlers l)[nat p := h]\<rparr>) else (-1, l))"
    by (auto simp: bloop_handler_register_def register_scan_occupied Let_def)
  then show ?thesis
    by (auto simp: bloop_handler_unregister_def list_update_same_conv nat_less_iff split: if_splits)
qed

theorem bloop_handler_register_exact_witness:
  "bloop_handler_register sample_loop (Some 9) 5 = (-1, sample_loop) \<and>
   fst (bloop_handler_register sample_loop (Some 9) 6) = 0"
  using bloop_handler_register_exact [of sample_loop "Some 9" 5] bloop_handler_register_exact [of sample_loop "Some 9" 6]
  by (simp add: sample_loop_def LOOP_TASK_MAX_def)

end
