(* ===== verification/Vfs.thy ===== *)
theory Vfs
  imports Utils_RBTree_Spec
begin

unbundle bit_operations_syntax

text \<open>
  The virtual file system of \<open>fs/vfs/src\<close>: the inode table (\<open>vfs_inode.c\<close>), the file descriptors
  (\<open>vfs_file.c\<close>), registration (\<open>vfs_register.c\<close>) and the system calls (\<open>vfs.c\<close>). Inodes and files live
  in stores from addresses to structs, the two red-black trees hold their addresses, and the
  comparison callbacks read the stores.

  What the code cannot decide is part of the state as a script: the results of \<open>pvPortMalloc\<close>,
  \<open>xSemaphoreTake\<close> and \<open>xSemaphoreGive\<close>, consumed call by call. Driver and file system operations are
  partial functions on the whole state, a \<open>NULL\<close> entry of an operation table is \<open>None\<close>. The value \<open>None\<close> of a
  call is a failed \<open>VFS_ASSERT\<close>, an access through \<open>NULL\<close> or a task blocked for ever on the mutex.
\<close>

section \<open>State\<close>

datatype vfs_type = VFS_TYPE_NOT_INIT | VFS_TYPE_CHAR_DEV | VFS_TYPE_BLOCK_DEV | VFS_TYPE_FS_DEV

record inode_t =
  i_ops :: ptr
  i_arg :: ptr
  i_name :: "string option"
  i_flags :: int
  i_type :: vfs_type
  i_refs :: u8

record file_t =
  f_node :: ptr
  f_arg :: ptr
  f_offset :: u32
  f_fd :: int

record files_handle_t =
  file_rb_tree :: "addr rb_tree option"
  fd_bitmap :: "u32 list"

text \<open>\<open>g_vfs_mutex\<close> is \<open>Some held\<close> once created; \<open>dev\<close> is the state of the devices and of user memory.\<close>

record 'd vfs =
  g_vfs_mutex :: "bool option"
  inode_rb_tree :: "addr rb_tree option"
  inodes :: "addr \<Rightarrow> inode_t"
  files_handle_dev :: "files_handle_t option"
  files :: "addr \<Rightarrow> file_t"
  dirs :: "addr \<Rightarrow> int"
  mallocs :: "ptr list"
  takes :: "bool list"
  gives :: "bool list"
  dev :: 'd

definition AOS_CONFIG_VFS_DEV_NODES :: nat where "AOS_CONFIG_VFS_DEV_NODES = 30"
definition AOS_CONFIG_VFS_FD_OFFSET :: int where "AOS_CONFIG_VFS_FD_OFFSET = 2"
definition MAX_FILE_NUM :: nat where "MAX_FILE_NUM = AOS_CONFIG_VFS_DEV_NODES * 2"
definition FILE_BITMAP_NUM :: nat where "FILE_BITMAP_NUM = (MAX_FILE_NUM + 31) div 32"
definition PATH_MAX :: nat where "PATH_MAX = 256"
definition VFS_SUCCESS :: int where "VFS_SUCCESS = 0"

definition inode0 :: inode_t where
  "inode0 = \<lparr>i_ops = NULL, i_arg = NULL, i_name = None, i_flags = 0, i_type = VFS_TYPE_NOT_INIT, i_refs = 0\<rparr>"

definition pvPortMalloc :: "'d vfs \<Rightarrow> ptr \<times> 'd vfs" where
  "pvPortMalloc v = (case mallocs v of [] \<Rightarrow> (NULL, v) | p # ps \<Rightarrow> (p, v\<lparr>mallocs := ps\<rparr>))"

text \<open>
  A scripted \<open>False\<close> is a call that returns something else than \<open>pdTRUE\<close>; otherwise the call waits
  for the mutex, for ever when it is held and there is no one to release it.
\<close>

definition xSemaphoreTake :: "'d vfs \<Rightarrow> (bool \<times> 'd vfs) option" where
  "xSemaphoreTake v = (case takes v of
      False # ts \<Rightarrow> Some (False, v\<lparr>takes := ts\<rparr>)
    | _ \<Rightarrow> (case g_vfs_mutex v of Some False \<Rightarrow> Some (True, v\<lparr>takes := tl (takes v), g_vfs_mutex := Some True\<rparr>) | _ \<Rightarrow> None))"

definition xSemaphoreGive :: "'d vfs \<Rightarrow> bool \<times> 'd vfs" where
  "xSemaphoreGive v = (case gives v of
      False # gs \<Rightarrow> (False, v\<lparr>gives := gs\<rparr>)
    | _ \<Rightarrow> (True, v\<lparr>gives := tl (gives v), g_vfs_mutex := Some False\<rparr>))"

section \<open>Inodes\<close>

text \<open>\<open>strncmp\<close> and \<open>strcmp\<close>: the difference of the first differing bytes, a string ends with 0.\<close>

fun c_strncmp :: "nat \<Rightarrow> string \<Rightarrow> string \<Rightarrow> int" where
  "c_strncmp 0 s t = 0"
| "c_strncmp (Suc n) [] [] = 0"
| "c_strncmp (Suc n) [] (b # t) = - int (of_char b)"
| "c_strncmp (Suc n) (a # s) [] = int (of_char a)"
| "c_strncmp (Suc n) (a # s) (b # t) = (if a = b then c_strncmp n s t else int (of_char a) - int (of_char b))"

definition c_strcmp :: "string \<Rightarrow> string \<Rightarrow> int" where
  "c_strcmp s t = c_strncmp (Suc (length s)) s t"

definition name_of :: "inode_t \<Rightarrow> string" where
  "name_of n = (case i_name n of None \<Rightarrow> [] | Some s \<Rightarrow> s)"

definition inode_cmp :: "inode_t \<Rightarrow> inode_t \<Rightarrow> int" where
  "inode_cmp a b =
     (if (i_type a = VFS_TYPE_FS_DEV) \<noteq> (i_type b = VFS_TYPE_FS_DEV) then
        let la = length (name_of a); lb = length (name_of b);
            ret = c_strncmp (if i_type a = VFS_TYPE_FS_DEV then la else lb) (name_of a) (name_of b)
        in if ret = 0 \<and> la \<noteq> lb then
             if i_type a = VFS_TYPE_FS_DEV then c_strncmp 1 (drop la (name_of b)) ''/''
             else c_strncmp 1 (drop lb (name_of a)) ''/''
           else ret
      else c_strcmp (name_of a) (name_of b))"

definition inode_cmp_cb :: "(addr \<Rightarrow> inode_t) \<Rightarrow> addr cmp" where
  "inode_cmp_cb st a b = inode_cmp (st a) (st b)"

definition rb_tree_create :: "'d vfs \<Rightarrow> addr rb_tree option \<times> 'd vfs" where
  "rb_tree_create v = (let (p, v) = pvPortMalloc v in (case p of None \<Rightarrow> None | Some _ \<Rightarrow> Some rb_tree_init, v))"

definition inode_init :: "'d vfs \<Rightarrow> int \<times> 'd vfs" where
  "inode_init v =
     (if inode_rb_tree v = None then
        let (t, v) = rb_tree_create v; v = v\<lparr>inode_rb_tree := t\<rparr> in (if t = None then -1 else 0, v)
      else (0, v))"

definition inode_alloc :: "'d vfs \<Rightarrow> (int \<times> addr \<times> 'd vfs) option" where
  "inode_alloc v = (let (p, v) = pvPortMalloc v in do { a \<leftarrow> p; Some (0, a, v\<lparr>inodes := (inodes v)(a := inode0)\<rparr>) })"

definition inode_del :: "'d vfs \<Rightarrow> addr \<Rightarrow> (int \<times> 'd vfs) option" where
  "inode_del v node =
     (if i_refs (inodes v node) > 0 then Some (- EBUSY, v)
      else do {
        (_, t) \<leftarrow> rb_tree_remove (inode_cmp_cb (inodes v)) (inode_rb_tree v) node;
        Some (VFS_SUCCESS, v\<lparr>inode_rb_tree := t\<rparr>)
      })"

text \<open>The probe inode on the stack of \<open>inode_open\<close> has the address 0, which no allocation returns.\<close>

definition inode_open :: "'d vfs \<Rightarrow> string \<Rightarrow> ptr" where
  "inode_open v path =
     rb_tree_find (inode_cmp_cb ((inodes v)(0 := inode0\<lparr>i_name := Some path\<rparr>))) (inode_rb_tree v) 0"

fun inode_each_loop :: "(addr \<Rightarrow> inode_t \<Rightarrow> 'c \<Rightarrow> bool \<times> 'c) \<Rightarrow> 'd vfs \<Rightarrow> nat \<Rightarrow> addr rb_iter \<Rightarrow> 'c \<Rightarrow> 'c option" where
  "inode_each_loop cb v 0 it c = Some c"
| "inode_each_loop cb v (Suc n) it c = do {
     node \<leftarrow> rb_iter_value it;
     let (stop, c) = (if i_name (inodes v node) \<noteq> None then cb node (inodes v node) c else (False, c));
     if stop then Some c
     else do {
       it \<leftarrow> rb_iter_next it;
       if rb_iter_value it = None then Some c else inode_each_loop cb v n it c
     }
   }"

text \<open>\<open>c\<close> is the state behind \<open>arg\<close> that the callback works on.\<close>

definition inode_forearch_name ::
  "(addr \<Rightarrow> inode_t \<Rightarrow> 'c \<Rightarrow> bool \<times> 'c) \<Rightarrow> 'd vfs \<Rightarrow> 'c \<Rightarrow> (u32 \<times> 'c \<times> 'd vfs) option" where
  "inode_forearch_name cb v c =
     (let node_num = rb_tree_size (inode_rb_tree v) in
      if node_num = 0 then Some (node_num, c, v)
      else let (p, v) = pvPortMalloc v in
        if p = NULL then Some (0, c, v)
        else do {
          t \<leftarrow> inode_rb_tree v;
          it \<leftarrow> rb_iter_first t;
          if rb_iter_value it = None then Some (0, c, v)
          else do { c \<leftarrow> inode_each_loop cb v (unat node_num) it c; Some (node_num, c, v) }
        })"

definition inode_ref :: "'d vfs \<Rightarrow> addr \<Rightarrow> 'd vfs" where
  "inode_ref v node = v\<lparr>inodes := (inodes v)(node := (inodes v node)\<lparr>i_refs := i_refs (inodes v node) + 1\<rparr>)\<rparr>"

definition inode_unref :: "'d vfs \<Rightarrow> addr \<Rightarrow> 'd vfs" where
  "inode_unref v node =
     (if i_refs (inodes v node) > 0
      then v\<lparr>inodes := (inodes v)(node := (inodes v node)\<lparr>i_refs := i_refs (inodes v node) - 1\<rparr>)\<rparr> else v)"

definition inode_busy :: "'d vfs \<Rightarrow> addr \<Rightarrow> bool" where
  "inode_busy v node = (i_refs (inodes v node) > 0)"

definition inode_avail_count :: "'d vfs \<Rightarrow> u32" where
  "inode_avail_count v = word_of_nat AOS_CONFIG_VFS_DEV_NODES - rb_tree_size (inode_rb_tree v)"

definition inode_set_name :: "'d vfs \<Rightarrow> string \<Rightarrow> addr \<Rightarrow> (int \<times> 'd vfs) option" where
  "inode_set_name v path node =
     (let (mem, v) = pvPortMalloc v in
      if mem = NULL then None
      else Some (VFS_SUCCESS, v\<lparr>inodes := (inodes v)(node := (inodes v node)\<lparr>i_name := Some path\<rparr>)\<rparr>))"

definition inode_reserve :: "'d vfs \<Rightarrow> string option \<Rightarrow> (int \<times> ptr \<times> 'd vfs) option" where
  "inode_reserve v path = (case path of
      None \<Rightarrow> Some (- EINVAL, NULL, v)
    | Some path \<Rightarrow>
        if path = [] \<or> hd path \<noteq> CHR ''/'' then Some (- EINVAL, NULL, v)
        else if inode_rb_tree v = None \<or> word_of_nat AOS_CONFIG_VFS_DEV_NODES \<le> rb_tree_size (inode_rb_tree v)
        then Some (- EINVAL, NULL, v)
        else do {
          (_, node, v) \<leftarrow> inode_alloc v;
          (_, v) \<leftarrow> inode_set_name v path node;
          let (mem, v) = pvPortMalloc v;
          (ret, t) \<leftarrow> rb_tree_insert (inode_cmp_cb (inodes v)) (mem \<noteq> NULL) (inode_rb_tree v) node;
          if ret = 0 then Some (- ENOMEM, NULL, v)
          else Some (VFS_SUCCESS, Some node, v\<lparr>inode_rb_tree := t\<rparr>)
        })"

definition inode_release :: "'d vfs \<Rightarrow> string option \<Rightarrow> (int \<times> 'd vfs) option" where
  "inode_release v path = (case path of
      None \<Rightarrow> Some (- EINVAL, v)
    | Some path \<Rightarrow> (case inode_open v path of
        None \<Rightarrow> Some (- ENODEV, v)
      | Some node \<Rightarrow> do { (ret, v) \<leftarrow> inode_del v node; Some (if ret < 0 then ret else VFS_SUCCESS, v) }))"

section \<open>Files\<close>

definition file_cmp_cb :: "(addr \<Rightarrow> file_t) \<Rightarrow> addr cmp" where
  "file_cmp_cb st a b = of_bool (f_fd (st a) > f_fd (st b)) - of_bool (f_fd (st a) < f_fd (st b))"

definition file_init :: "'d vfs \<Rightarrow> int \<times> 'd vfs" where
  "file_init v =
     (if files_handle_dev v = None then
        let (p, v) = pvPortMalloc v in
        if p = NULL then (-1, v)
        else let (t, v) = rb_tree_create v in
          if t = None then (-1, v)
          else (0, v\<lparr>files_handle_dev := Some \<lparr>file_rb_tree = t, fd_bitmap = replicate FILE_BITMAP_NUM 0\<rparr>\<rparr>)
      else (0, v))"

definition fd_bit :: "u32 list \<Rightarrow> nat \<Rightarrow> bool" where
  "fd_bit bm i = (bm ! (i div 32) AND push_bit (i mod 32) 1 \<noteq> 0)"

definition fd_set :: "u32 list \<Rightarrow> nat \<Rightarrow> u32 list" where
  "fd_set bm i = bm[i div 32 := bm ! (i div 32) OR push_bit (i mod 32) 1]"

definition fd_clear :: "u32 list \<Rightarrow> nat \<Rightarrow> u32 list" where
  "fd_clear bm i = bm[i div 32 := bm ! (i div 32) AND NOT (push_bit (i mod 32) 1)]"

fun fd_scan :: "u32 list \<Rightarrow> nat \<Rightarrow> nat \<Rightarrow> nat option" where
  "fd_scan bm i 0 = None"
| "fd_scan bm i (Suc n) = (if \<not> fd_bit bm i then Some i else fd_scan bm (Suc i) n)"

definition new_file :: "'d vfs \<Rightarrow> addr \<Rightarrow> (ptr \<times> 'd vfs) option" where
  "new_file v node = (case files_handle_dev v of
      None \<Rightarrow> Some (NULL, v)
    | Some fh \<Rightarrow>
        if word_of_nat MAX_FILE_NUM \<le> rb_tree_size (file_rb_tree fh) then Some (NULL, v)
        else (case fd_scan (fd_bitmap fh) 0 MAX_FILE_NUM of
            None \<Rightarrow> Some (NULL, v)
          | Some fd \<Rightarrow>
              let fh = fh\<lparr>fd_bitmap := fd_set (fd_bitmap fh) fd\<rparr>;
                  (p, v) = pvPortMalloc v in
              do {
                f \<leftarrow> p;
                let v = v\<lparr>files := (files v)(f :=
                  \<lparr>f_node = Some node, f_arg = NULL, f_offset = 0, f_fd = int fd + AOS_CONFIG_VFS_FD_OFFSET\<rparr>)\<rparr>;
                let (mem, v) = pvPortMalloc v;
                (ret, t) \<leftarrow> rb_tree_insert (file_cmp_cb (files v)) (mem \<noteq> NULL) (file_rb_tree fh) f;
                if ret = 0 then Some (NULL, v\<lparr>files_handle_dev := Some (fh\<lparr>fd_bitmap := fd_clear (fd_bitmap fh) fd\<rparr>)\<rparr>)
                else Some (Some f, inode_ref (v\<lparr>files_handle_dev := Some (fh\<lparr>file_rb_tree := t\<rparr>)\<rparr>) node)
              }))"

definition del_file :: "'d vfs \<Rightarrow> addr \<Rightarrow> 'd vfs option" where
  "del_file v file = do {
     node \<leftarrow> f_node (files v file);
     let v = inode_unref v node;
     let v = v\<lparr>files := (files v)(file := (files v file)\<lparr>f_node := NULL\<rparr>)\<rparr>;
     let fd = f_fd (files v file) - AOS_CONFIG_VFS_FD_OFFSET;
     fh \<leftarrow> files_handle_dev v;
     if fd < 0 \<or> fd \<ge> int (32 * length (fd_bitmap fh)) then None
     else do {
       let fh = fh\<lparr>fd_bitmap := fd_clear (fd_bitmap fh) (nat fd)\<rparr>;
       (_, t) \<leftarrow> rb_tree_remove (file_cmp_cb (files v)) (file_rb_tree fh) file;
       Some (v\<lparr>files_handle_dev := Some (fh\<lparr>file_rb_tree := t\<rparr>)\<rparr>)
     }
   }"

definition get_fd :: "'d vfs \<Rightarrow> addr \<Rightarrow> int" where
  "get_fd v file = f_fd (files v file)"

text \<open>The probe file on the stack of \<open>get_file\<close> has the address 0.\<close>

definition get_file :: "'d vfs \<Rightarrow> int \<Rightarrow> ptr option" where
  "get_file v fd =
     (if fd < 0 then Some NULL
      else do {
        fh \<leftarrow> files_handle_dev v;
        Some (rb_tree_find (file_cmp_cb ((files v)(0 := (files v 0)\<lparr>f_fd := fd\<rparr>))) (file_rb_tree fh) 0)
      })"

fun all_file_loop :: "nat \<Rightarrow> nat \<Rightarrow> addr rb_iter \<Rightarrow> addr list \<Rightarrow> addr list option" where
  "all_file_loop i 0 it acc = Some acc"
| "all_file_loop i (Suc n) it acc = do {
     it \<leftarrow> rb_iter_next it;
     case rb_iter_value it of None \<Rightarrow> Some acc | Some f \<Rightarrow> all_file_loop (Suc i) n it (acc @ [f])
   }"

text \<open>The result is the number returned and the entries stored into the array; \<open>capacity\<close> is its size.\<close>

definition get_all_file :: "'d vfs \<Rightarrow> nat \<Rightarrow> (nat \<times> addr list \<times> 'd vfs) option" where
  "get_all_file v capacity = do {
     fh \<leftarrow> files_handle_dev v;
     let file_num = unat (rb_tree_size (file_rb_tree fh));
     if file_num = 0 then Some (0, [], v)
     else do {
       let file_num = (if capacity > file_num then file_num else capacity);
       let (p, v) = pvPortMalloc v;
       if p = NULL then Some (0, [], v)
       else do {
         t \<leftarrow> file_rb_tree fh;
         it \<leftarrow> rb_iter_first t;
         case rb_iter_value it of
           None \<Rightarrow> Some (0, [], v)
         | Some f \<Rightarrow> do {
             fs \<leftarrow> all_file_loop 1 (file_num - 1) it [f];
             Some (if length fs < file_num then length fs else file_num, fs, v)
           }
       }
     }
   }"

section \<open>Operation tables\<close>

text \<open>
  The drivers' and file systems' operations. A buffer or a struct to fill is an address; what is
  read from or written to it is part of \<open>dev\<close>.
\<close>

record 'd file_ops =
  fo_open :: "(addr \<Rightarrow> addr \<Rightarrow> 'd vfs \<Rightarrow> (int \<times> 'd vfs) option) option"
  fo_close :: "(addr \<Rightarrow> 'd vfs \<Rightarrow> (int \<times> 'd vfs) option) option"
  fo_read :: "(addr \<Rightarrow> addr \<Rightarrow> u32 \<Rightarrow> 'd vfs \<Rightarrow> (int \<times> 'd vfs) option) option"
  fo_write :: "(addr \<Rightarrow> addr \<Rightarrow> u32 \<Rightarrow> 'd vfs \<Rightarrow> (int \<times> 'd vfs) option) option"
  fo_ioctl :: "(addr \<Rightarrow> int \<Rightarrow> u32 \<Rightarrow> 'd vfs \<Rightarrow> (int \<times> 'd vfs) option) option"
  fo_sync :: "(addr \<Rightarrow> 'd vfs \<Rightarrow> (int \<times> 'd vfs) option) option"

record 'd fs_ops =
  fs_open :: "(addr \<Rightarrow> string \<Rightarrow> int \<Rightarrow> 'd vfs \<Rightarrow> (int \<times> 'd vfs) option) option"
  fs_close :: "(addr \<Rightarrow> 'd vfs \<Rightarrow> (int \<times> 'd vfs) option) option"
  fs_read :: "(addr \<Rightarrow> addr \<Rightarrow> u32 \<Rightarrow> 'd vfs \<Rightarrow> (int \<times> 'd vfs) option) option"
  fs_write :: "(addr \<Rightarrow> addr \<Rightarrow> u32 \<Rightarrow> 'd vfs \<Rightarrow> (int \<times> 'd vfs) option) option"
  fs_lseek :: "(addr \<Rightarrow> int \<Rightarrow> int \<Rightarrow> 'd vfs \<Rightarrow> (int \<times> 'd vfs) option) option"
  fs_sync :: "(addr \<Rightarrow> 'd vfs \<Rightarrow> (int \<times> 'd vfs) option) option"
  fs_stat :: "(addr \<Rightarrow> string \<Rightarrow> addr \<Rightarrow> 'd vfs \<Rightarrow> (int \<times> 'd vfs) option) option"
  fs_unlink :: "(addr \<Rightarrow> string \<Rightarrow> 'd vfs \<Rightarrow> (int \<times> 'd vfs) option) option"
  fs_rename :: "(addr \<Rightarrow> string \<Rightarrow> string \<Rightarrow> 'd vfs \<Rightarrow> (int \<times> 'd vfs) option) option"
  fs_opendir :: "(addr \<Rightarrow> string \<Rightarrow> 'd vfs \<Rightarrow> (ptr \<times> 'd vfs) option) option"
  fs_readdir :: "(addr \<Rightarrow> addr \<Rightarrow> 'd vfs \<Rightarrow> (ptr \<times> 'd vfs) option) option"
  fs_closedir :: "(addr \<Rightarrow> addr \<Rightarrow> 'd vfs \<Rightarrow> (int \<times> 'd vfs) option) option"
  fs_mkdir :: "(addr \<Rightarrow> string \<Rightarrow> 'd vfs \<Rightarrow> (int \<times> 'd vfs) option) option"
  fs_rmdir :: "(addr \<Rightarrow> string \<Rightarrow> 'd vfs \<Rightarrow> (int \<times> 'd vfs) option) option"
  fs_rewinddir :: "(addr \<Rightarrow> addr \<Rightarrow> 'd vfs \<Rightarrow> 'd vfs option) option"
  fs_telldir :: "(addr \<Rightarrow> addr \<Rightarrow> 'd vfs \<Rightarrow> (int \<times> 'd vfs) option) option"
  fs_seekdir :: "(addr \<Rightarrow> addr \<Rightarrow> int \<Rightarrow> 'd vfs \<Rightarrow> 'd vfs option) option"
  fs_ioctl :: "(addr \<Rightarrow> int \<Rightarrow> u32 \<Rightarrow> 'd vfs \<Rightarrow> (int \<times> 'd vfs) option) option"
  fs_statfs :: "(addr \<Rightarrow> string \<Rightarrow> addr \<Rightarrow> 'd vfs \<Rightarrow> (int \<times> 'd vfs) option) option"
  fs_access :: "(addr \<Rightarrow> string \<Rightarrow> int \<Rightarrow> 'd vfs \<Rightarrow> (int \<times> 'd vfs) option) option"

text \<open>The memory of the operation tables, which \<open>node->ops\<close> points into.\<close>

record 'd tables =
  file_tables :: "addr \<Rightarrow> 'd file_ops"
  fs_tables :: "addr \<Rightarrow> 'd fs_ops"

definition INODE_IS_FS :: "'d vfs \<Rightarrow> addr \<Rightarrow> bool" where
  "INODE_IS_FS v node = (i_type (inodes v node) = VFS_TYPE_FS_DEV)"

text \<open>
  Dispatch through \<open>node->ops\<close>: the entry of the file system or of the driver table is called when it
  is there, otherwise \<open>dflt\<close> stays. Reading the table through a \<open>NULL\<close> pointer is \<open>None\<close>.
\<close>

definition dispatch ::
  "'d tables \<Rightarrow> 'd vfs \<Rightarrow> addr \<Rightarrow> ('d fs_ops \<Rightarrow> ('d vfs \<Rightarrow> (int \<times> 'd vfs) option) option) \<Rightarrow>
   ('d file_ops \<Rightarrow> ('d vfs \<Rightarrow> (int \<times> 'd vfs) option) option) \<Rightarrow> int \<Rightarrow> (int \<times> 'd vfs) option" where
  "dispatch tb v node fsop fop dflt = do {
     ops \<leftarrow> i_ops (inodes v node);
     let f = (if INODE_IS_FS v node then fsop (fs_tables tb ops) else fop (file_tables tb ops));
     case f of None \<Rightarrow> Some (dflt, v) | Some g \<Rightarrow> g v
   }"

text \<open>The calls a driver does not take part in: \<open>node->ops\<close> is only read for a file system.\<close>

definition dispatch_fs ::
  "'d tables \<Rightarrow> 'd vfs \<Rightarrow> addr \<Rightarrow> ('d fs_ops \<Rightarrow> ('d vfs \<Rightarrow> ('r \<times> 'd vfs) option) option) \<Rightarrow> 'r \<Rightarrow> ('r \<times> 'd vfs) option" where
  "dispatch_fs tb v node fsop dflt =
     (if INODE_IS_FS v node then do {
        ops \<leftarrow> i_ops (inodes v node);
        case fsop (fs_tables tb ops) of None \<Rightarrow> Some (dflt, v) | Some g \<Rightarrow> g v
      } else Some (dflt, v))"

section \<open>System calls\<close>

text \<open>\<open>mutex\<close> is whether \<open>xSemaphoreCreateMutex\<close> succeeded.\<close>

definition vfs_init :: "bool \<Rightarrow> 'd vfs \<Rightarrow> int \<times> 'd vfs" where
  "vfs_init mutex v =
     (if g_vfs_mutex v \<noteq> None then (VFS_SUCCESS, v)
      else if \<not> mutex then (-1, v)
      else let v = v\<lparr>g_vfs_mutex := Some False\<rparr>; (r, v) = inode_init v in
        if r \<noteq> 0 then (-1, v\<lparr>g_vfs_mutex := None\<rparr>)
        else let (r, v) = file_init v in
          if r \<noteq> 0 then (-1, v\<lparr>g_vfs_mutex := None\<rparr>) else (VFS_SUCCESS, v))"

definition aos_open :: "'d tables \<Rightarrow> 'd vfs \<Rightarrow> string option \<Rightarrow> int \<Rightarrow> (int \<times> 'd vfs) option" where
  "aos_open tb v path flags = (case path of
      None \<Rightarrow> Some (- EINVAL, v)
    | Some path \<Rightarrow>
        if length path > PATH_MAX then Some (- ENAMETOOLONG, v)
        else do {
          (ok, v) \<leftarrow> xSemaphoreTake v;
          if \<not> ok then Some (-1, v)
          else (case inode_open v path of
              None \<Rightarrow> Some (- ENOENT, snd (xSemaphoreGive v))
            | Some node \<Rightarrow> do {
                let v = v\<lparr>inodes := (inodes v)(node := (inodes v node)\<lparr>i_flags := flags\<rparr>)\<rparr>;
                (p, v) \<leftarrow> new_file v node;
                let v = snd (xSemaphoreGive v);
                case p of
                  None \<Rightarrow> Some (- ENFILE, v)
                | Some file \<Rightarrow> do {
                    (ret, v) \<leftarrow> dispatch tb v node
                      (\<lambda>tab. map_option (\<lambda>f. f file path flags) (fs_open tab)) (\<lambda>tab. map_option (\<lambda>f. f node file) (fo_open tab)) VFS_SUCCESS;
                    if ret \<noteq> VFS_SUCCESS then do { v \<leftarrow> del_file v file; Some (ret, v) }
                    else Some (get_fd v file, v)
                  }
              })
        })"

definition aos_close :: "'d tables \<Rightarrow> 'd vfs \<Rightarrow> int \<Rightarrow> (int \<times> 'd vfs) option" where
  "aos_close tb v fd = do {
     p \<leftarrow> get_file v fd;
     case p of
       None \<Rightarrow> Some (- ENOENT, v)
     | Some f \<Rightarrow> do {
         node \<leftarrow> f_node (files v f);
         (ret, v) \<leftarrow> dispatch tb v node (\<lambda>tab. map_option (\<lambda>g. g f) (fs_close tab)) (\<lambda>tab. map_option (\<lambda>g. g f) (fo_close tab)) VFS_SUCCESS;
         (ok, v) \<leftarrow> xSemaphoreTake v;
         if \<not> ok then Some (-1, v)
         else do { v \<leftarrow> del_file v f; Some (ret, snd (xSemaphoreGive v)) }
       }
   }"

text \<open>The calls on a descriptor: find the file, dispatch on its inode.\<close>

definition on_fd :: "'d vfs \<Rightarrow> int \<Rightarrow> (addr \<Rightarrow> addr \<Rightarrow> (int \<times> 'd vfs) option) \<Rightarrow> (int \<times> 'd vfs) option" where
  "on_fd v fd body = do {
     p \<leftarrow> get_file v fd;
     case p of None \<Rightarrow> Some (- ENOENT, v) | Some f \<Rightarrow> do { node \<leftarrow> f_node (files v f); body f node }
   }"

definition aos_read :: "'d tables \<Rightarrow> 'd vfs \<Rightarrow> int \<Rightarrow> addr \<Rightarrow> u32 \<Rightarrow> (int \<times> 'd vfs) option" where
  "aos_read tb v fd buf nbytes = on_fd v fd (\<lambda>f node.
     dispatch tb v node (\<lambda>tab. map_option (\<lambda>g. g f buf nbytes) (fs_read tab)) (\<lambda>tab. map_option (\<lambda>g. g f buf nbytes) (fo_read tab)) (-1))"

definition aos_write :: "'d tables \<Rightarrow> 'd vfs \<Rightarrow> int \<Rightarrow> addr \<Rightarrow> u32 \<Rightarrow> (int \<times> 'd vfs) option" where
  "aos_write tb v fd buf nbytes = on_fd v fd (\<lambda>f node.
     dispatch tb v node (\<lambda>tab. map_option (\<lambda>g. g f buf nbytes) (fs_write tab)) (\<lambda>tab. map_option (\<lambda>g. g f buf nbytes) (fo_write tab)) (-1))"

definition aos_ioctl :: "'d tables \<Rightarrow> 'd vfs \<Rightarrow> int \<Rightarrow> int \<Rightarrow> u32 \<Rightarrow> (int \<times> 'd vfs) option" where
  "aos_ioctl tb v fd cmd arg =
     (if fd < 0 then Some (- EINVAL, v)
      else on_fd v fd (\<lambda>f node.
        dispatch tb v node (\<lambda>tab. map_option (\<lambda>g. g f cmd arg) (fs_ioctl tab)) (\<lambda>tab. map_option (\<lambda>g. g f cmd arg) (fo_ioctl tab)) (- ENOSYS)))"

definition aos_lseek :: "'d tables \<Rightarrow> 'd vfs \<Rightarrow> int \<Rightarrow> int \<Rightarrow> int \<Rightarrow> (int \<times> 'd vfs) option" where
  "aos_lseek tb v fd offset whence = on_fd v fd (\<lambda>f node.
     dispatch_fs tb v node (\<lambda>tab. map_option (\<lambda>g. g f offset whence) (fs_lseek tab)) (- ENOSYS))"

definition aos_sync :: "'d tables \<Rightarrow> 'd vfs \<Rightarrow> int \<Rightarrow> (int \<times> 'd vfs) option" where
  "aos_sync tb v fd = on_fd v fd (\<lambda>f node.
     dispatch tb v node (\<lambda>tab. map_option (\<lambda>g. g f) (fs_sync tab)) (\<lambda>tab. map_option (\<lambda>g. g f) (fo_sync tab)) (- ENOSYS))"

text \<open>
  The body shared by the calls on a path: with the mutex held look up the inode and take a file for
  the duration of the call, run the file system's operation, and give the file back under the
  mutex. \<open>err\<close> is the value returned when the mutex cannot be taken.
\<close>

definition on_path ::
  "int \<Rightarrow> 'd vfs \<Rightarrow> string option \<Rightarrow> (addr \<Rightarrow> addr \<Rightarrow> string \<Rightarrow> 'd vfs \<Rightarrow> (int \<times> 'd vfs) option) \<Rightarrow> (int \<times> 'd vfs) option" where
  "on_path err v path body = (case path of
      None \<Rightarrow> Some (- EINVAL, v)
    | Some path \<Rightarrow> do {
        (ok, v) \<leftarrow> xSemaphoreTake v;
        if \<not> ok then Some (err, v)
        else (case inode_open v path of
            None \<Rightarrow> Some (- ENODEV, snd (xSemaphoreGive v))
          | Some node \<Rightarrow> do {
              (p, v) \<leftarrow> new_file v node;
              let v = snd (xSemaphoreGive v);
              case p of
                None \<Rightarrow> Some (- ENOENT, v)
              | Some file \<Rightarrow> do {
                  (ret, v) \<leftarrow> body file node path v;
                  (ok, v) \<leftarrow> xSemaphoreTake v;
                  if \<not> ok then Some (err, v)
                  else do { v \<leftarrow> del_file v file; Some (ret, snd (xSemaphoreGive v)) }
                }
            })
      })"

definition aos_stat :: "'d tables \<Rightarrow> 'd vfs \<Rightarrow> string option \<Rightarrow> addr \<Rightarrow> (int \<times> 'd vfs) option" where
  "aos_stat tb v path st = on_path (-1) v path (\<lambda>f node path v.
     dispatch_fs tb v node (\<lambda>tab. map_option (\<lambda>g. g f path st) (fs_stat tab)) (- ENOSYS))"

definition aos_unlink :: "'d tables \<Rightarrow> 'd vfs \<Rightarrow> string option \<Rightarrow> (int \<times> 'd vfs) option" where
  "aos_unlink tb v path = on_path (-1) v path (\<lambda>f node path v.
     dispatch_fs tb v node (\<lambda>tab. map_option (\<lambda>g. g f path) (fs_unlink tab)) (- ENOSYS))"

definition aos_rename :: "'d tables \<Rightarrow> 'd vfs \<Rightarrow> string option \<Rightarrow> string option \<Rightarrow> (int \<times> 'd vfs) option" where
  "aos_rename tb v oldpath newpath = (case newpath of
      None \<Rightarrow> Some (- EINVAL, v)
    | Some newpath \<Rightarrow> on_path (-1) v oldpath (\<lambda>f node path v.
        dispatch_fs tb v node (\<lambda>tab. map_option (\<lambda>g. g f path newpath) (fs_rename tab)) (- ENOSYS)))"

definition aos_mkdir :: "'d tables \<Rightarrow> 'd vfs \<Rightarrow> string option \<Rightarrow> (int \<times> 'd vfs) option" where
  "aos_mkdir tb v path = on_path (-1) v path (\<lambda>f node path v.
     dispatch_fs tb v node (\<lambda>tab. map_option (\<lambda>g. g f path) (fs_mkdir tab)) (- ENOSYS))"

definition aos_rmdir :: "'d tables \<Rightarrow> 'd vfs \<Rightarrow> string option \<Rightarrow> (int \<times> 'd vfs) option" where
  "aos_rmdir tb v path = on_path (-1) v path (\<lambda>f node path v.
     dispatch_fs tb v node (\<lambda>tab. map_option (\<lambda>g. g f path) (fs_rmdir tab)) (- ENOSYS))"

definition aos_access :: "'d tables \<Rightarrow> 'd vfs \<Rightarrow> string option \<Rightarrow> int \<Rightarrow> (int \<times> 'd vfs) option" where
  "aos_access tb v path amode = on_path (- ENOSYS) v path (\<lambda>f node path v.
     dispatch_fs tb v node (\<lambda>tab. map_option (\<lambda>g. g f path amode) (fs_access tab)) (- ENOSYS))"

text \<open>
  \<open>aos_statfs\<close> compares the result of \<open>xSemaphoreTake\<close> with 0: it returns at once, with the value
  \<open>pdTRUE\<close> and the mutex held, when the mutex was taken, and goes on without it otherwise.
\<close>

definition aos_statfs :: "'d tables \<Rightarrow> 'd vfs \<Rightarrow> string option \<Rightarrow> addr \<Rightarrow> (int \<times> 'd vfs) option" where
  "aos_statfs tb v path buf = (case path of
      None \<Rightarrow> Some (- EINVAL, v)
    | Some path \<Rightarrow> do {
        (ok, v) \<leftarrow> xSemaphoreTake v;
        if ok then Some (1, v)
        else (case inode_open v path of
            None \<Rightarrow> Some (- ENODEV, snd (xSemaphoreGive v))
          | Some node \<Rightarrow> do {
              (p, v) \<leftarrow> new_file v node;
              let v = snd (xSemaphoreGive v);
              case p of
                None \<Rightarrow> Some (- ENOENT, v)
              | Some file \<Rightarrow> do {
                  (ret, v) \<leftarrow> dispatch_fs tb v node (\<lambda>tab. map_option (\<lambda>g. g file path buf) (fs_statfs tab)) (- ENOSYS);
                  (ok, v) \<leftarrow> xSemaphoreTake v;
                  if ok then Some (1, v)
                  else do { v \<leftarrow> del_file v file; Some (ret, snd (xSemaphoreGive v)) }
                }
            })
      })"

subsection \<open>Directories\<close>

definition aos_opendir :: "'d tables \<Rightarrow> 'd vfs \<Rightarrow> string option \<Rightarrow> (ptr \<times> 'd vfs) option" where
  "aos_opendir tb v path = (case path of
      None \<Rightarrow> Some (NULL, v)
    | Some path \<Rightarrow> do {
        (ok, v) \<leftarrow> xSemaphoreTake v;
        if \<not> ok then Some (NULL, v)
        else (case inode_open v path of
            None \<Rightarrow> Some (NULL, snd (xSemaphoreGive v))
          | Some node \<Rightarrow> do {
              (p, v) \<leftarrow> new_file v node;
              let v = snd (xSemaphoreGive v);
              case p of
                None \<Rightarrow> Some (NULL, v)
              | Some file \<Rightarrow> do {
                  (dp, v) \<leftarrow> dispatch_fs tb v node (\<lambda>tab. map_option (\<lambda>g. g file path) (fs_opendir tab)) NULL;
                  case dp of
                    None \<Rightarrow> do {
                      (ok, v) \<leftarrow> xSemaphoreTake v;
                      if \<not> ok then Some (NULL, v)
                      else do { v \<leftarrow> del_file v file; Some (NULL, snd (xSemaphoreGive v)) }
                    }
                  | Some d \<Rightarrow> Some (dp, v\<lparr>dirs := (dirs v)(d := get_fd v file)\<rparr>)
                }
            })
      })"

definition aos_closedir :: "'d tables \<Rightarrow> 'd vfs \<Rightarrow> ptr \<Rightarrow> (int \<times> 'd vfs) option" where
  "aos_closedir tb v dir = (case dir of
      None \<Rightarrow> Some (- EINVAL, v)
    | Some d \<Rightarrow> do {
        p \<leftarrow> get_file v (dirs v d);
        case p of
          None \<Rightarrow> Some (- ENOENT, v)
        | Some f \<Rightarrow> do {
            node \<leftarrow> f_node (files v f);
            (ret, v) \<leftarrow> dispatch_fs tb v node (\<lambda>tab. map_option (\<lambda>g. g f d) (fs_closedir tab)) (- ENOSYS);
            (ok, v) \<leftarrow> xSemaphoreTake v;
            if \<not> ok then Some (-1, v)
            else do { v \<leftarrow> del_file v f; Some (ret, snd (xSemaphoreGive v)) }
          }
      })"

text \<open>The other calls on an open directory; \<open>none\<close> and \<open>absent\<close> are returned for \<open>NULL\<close> and for no such file.\<close>

definition on_dir ::
  "'r \<Rightarrow> 'r \<Rightarrow> 'r \<Rightarrow> 'd tables \<Rightarrow> 'd vfs \<Rightarrow> ptr \<Rightarrow> ('d fs_ops \<Rightarrow> (addr \<Rightarrow> addr \<Rightarrow> 'd vfs \<Rightarrow> ('r \<times> 'd vfs) option) option) \<Rightarrow> ('r \<times> 'd vfs) option" where
  "on_dir none absent dflt tb v dir op = (case dir of
      None \<Rightarrow> Some (none, v)
    | Some d \<Rightarrow> do {
        p \<leftarrow> get_file v (dirs v d);
        case p of
          None \<Rightarrow> Some (absent, v)
        | Some f \<Rightarrow> do {
            node \<leftarrow> f_node (files v f);
            dispatch_fs tb v node (\<lambda>tab. map_option (\<lambda>g. g f d) (op tab)) dflt
          }
      })"

definition aos_readdir :: "'d tables \<Rightarrow> 'd vfs \<Rightarrow> ptr \<Rightarrow> (ptr \<times> 'd vfs) option" where
  "aos_readdir tb v dir = on_dir NULL NULL NULL tb v dir fs_readdir"

definition aos_rewinddir :: "'d tables \<Rightarrow> 'd vfs \<Rightarrow> ptr \<Rightarrow> (unit \<times> 'd vfs) option" where
  "aos_rewinddir tb v dir =
     on_dir () () () tb v dir (\<lambda>tab. map_option (\<lambda>g f d v. map_option (Pair ()) (g f d v)) (fs_rewinddir tab))"

definition aos_telldir :: "'d tables \<Rightarrow> 'd vfs \<Rightarrow> ptr \<Rightarrow> (int \<times> 'd vfs) option" where
  "aos_telldir tb v dir = on_dir (- EINVAL) (- ENOENT) 0 tb v dir fs_telldir"

definition aos_seekdir :: "'d tables \<Rightarrow> 'd vfs \<Rightarrow> ptr \<Rightarrow> int \<Rightarrow> (unit \<times> 'd vfs) option" where
  "aos_seekdir tb v dir loc =
     on_dir () () () tb v dir (\<lambda>tab. map_option (\<lambda>g f d v. map_option (Pair ()) (g f d loc v)) (fs_seekdir tab))"

section \<open>Registration\<close>

text \<open>
  A failing \<open>xSemaphoreGive\<close> frees the name and wipes the inode, through \<open>node\<close> even when that is
  \<open>NULL\<close>, and leaves the entry in the tree.
\<close>

definition register_node :: "vfs_type \<Rightarrow> 'd vfs \<Rightarrow> string option \<Rightarrow> ptr \<Rightarrow> ptr \<Rightarrow> (int \<times> 'd vfs) option" where
  "register_node ty v path ops arg = do {
     (ok, v) \<leftarrow> xSemaphoreTake v;
     if \<not> ok then Some (-1, v)
     else do {
       (ret, node, v) \<leftarrow> inode_reserve v path;
       let v = (case node of
           Some n \<Rightarrow> if ret = VFS_SUCCESS
             then v\<lparr>inodes := (inodes v)(n := (inodes v n)\<lparr>i_type := ty, i_ops := ops, i_arg := arg\<rparr>)\<rparr> else v
         | None \<Rightarrow> v);
       let (given, v) = xSemaphoreGive v;
       if given then Some (ret, v)
       else do { n \<leftarrow> node; Some (-1, v\<lparr>inodes := (inodes v)(n := inode0)\<rparr>) }
     }
   }"

definition aos_register_driver :: "'d vfs \<Rightarrow> string option \<Rightarrow> ptr \<Rightarrow> ptr \<Rightarrow> (int \<times> 'd vfs) option" where
  "aos_register_driver v path ops arg = register_node VFS_TYPE_CHAR_DEV v path ops arg"

definition aos_register_fs :: "'d vfs \<Rightarrow> string option \<Rightarrow> ptr \<Rightarrow> ptr \<Rightarrow> (int \<times> 'd vfs) option" where
  "aos_register_fs v path ops arg = register_node VFS_TYPE_FS_DEV v path ops arg"

definition unregister_node :: "'d vfs \<Rightarrow> string option \<Rightarrow> (int \<times> 'd vfs) option" where
  "unregister_node v path = do {
     (ok, v) \<leftarrow> xSemaphoreTake v;
     if \<not> ok then Some (-1, v)
     else do {
       (ret, v) \<leftarrow> inode_release v path;
       let (given, v) = xSemaphoreGive v;
       Some (if given then ret else -1, v)
     }
   }"

definition aos_unregister_driver :: "'d vfs \<Rightarrow> string option \<Rightarrow> (int \<times> 'd vfs) option" where
  "aos_unregister_driver v path = unregister_node v path"

definition aos_unregister_fs :: "'d vfs \<Rightarrow> string option \<Rightarrow> (int \<times> 'd vfs) option" where
  "aos_unregister_fs v path = unregister_node v path"

end
