(* ===== verification/Vfs_File_Props.thy ===== *)
theory Vfs_File_Props
  imports Vfs
begin

unbundle bit_operations_syntax

text \<open>
  The descriptor table: the bitmap, the tree of open files and the reference counts of the inodes
  agree, and \<open>new_file\<close> and \<open>del_file\<close> keep it so.
\<close>

section \<open>The bitmap\<close>

lemma fd_bit_iff: "fd_bit bm i \<longleftrightarrow> bit (bm ! (i div 32)) (i mod 32)"
proof -
  have "bit (bm ! (i div 32) AND push_bit (i mod 32) 1) k \<longleftrightarrow> k = i mod 32 \<and> bit (bm ! (i div 32)) (i mod 32)" for k
    by (auto simp: bit_simps)
  then have "bm ! (i div 32) AND push_bit (i mod 32) 1 \<noteq> 0 \<longleftrightarrow> bit (bm ! (i div 32)) (i mod 32)"
    by (metis bit_0_eq bot_apply bot_bool_def bit_eqI)
  then show ?thesis by (simp add: fd_bit_def)
qed

lemma div_mod_32: "i = j \<longleftrightarrow> i div 32 = j div 32 \<and> i mod 32 = j mod (32 :: nat)"
  by (metis div_mult_mod_eq)

lemma fd_bit_set: "i < 32 * length bm \<Longrightarrow> j < 32 * length bm \<Longrightarrow> fd_bit (fd_set bm i) j \<longleftrightarrow> fd_bit bm j \<or> j = i"
  unfolding fd_bit_iff fd_set_def div_mod_32 [of j i] by (auto simp: nth_list_update bit_simps)

lemma fd_bit_clear: "i < 32 * length bm \<Longrightarrow> j < 32 * length bm \<Longrightarrow> fd_bit (fd_clear bm i) j \<longleftrightarrow> fd_bit bm j \<and> j \<noteq> i"
  unfolding fd_bit_iff fd_clear_def div_mod_32 [of j i] by (auto simp: nth_list_update bit_simps)

lemma fd_scan_Some: "fd_scan bm i n = Some k \<longleftrightarrow> i \<le> k \<and> k < i + n \<and> \<not> fd_bit bm k \<and> (\<forall>j. i \<le> j \<and> j < k \<longrightarrow> fd_bit bm j)"
proof (induction n arbitrary: i)
  case (Suc n)
  then show ?case by (auto simp: Suc_le_eq) (metis le_less_Suc_eq not_less_eq less_or_eq_imp_le le_eq_less_or_eq)+
qed auto

lemma fd_scan_None: "fd_scan bm i n = None \<longleftrightarrow> (\<forall>j. i \<le> j \<and> j < i + n \<longrightarrow> fd_bit bm j)"
proof (induction n arbitrary: i)
  case (Suc n)
  then show ?case by (auto simp: Suc_le_eq) (metis le_eq_less_or_eq)
qed auto

section \<open>Invariant\<close>

definition file_key :: "(addr \<Rightarrow> file_t) \<Rightarrow> addr \<Rightarrow> int" where "file_key st a = f_fd (st a)"

lemma file_cmp_sign:
  "file_cmp_cb st a b = 0 \<longleftrightarrow> f_fd (st a) = f_fd (st b)" "file_cmp_cb st a b < 0 \<longleftrightarrow> f_fd (st a) < f_fd (st b)"
  "0 < file_cmp_cb st a b \<longleftrightarrow> f_fd (st b) < f_fd (st a)" "0 \<le> file_cmp_cb st a b \<longleftrightarrow> f_fd (st b) \<le> f_fd (st a)"
  by (auto simp: file_cmp_cb_def)

lemma file_probe: "key_sorted (file_key st) xs \<Longrightarrow> mono_probe (file_cmp_cb st) n xs"
  unfolding key_sorted_def mono_probe_def file_key_def file_cmp_sign
  by (erule sorted_wrt_mono_rel [rotated]) auto

definition open_files :: "'d vfs \<Rightarrow> addr list" where
  "open_files v = (case files_handle_dev v of None \<Rightarrow> [] | Some fh \<Rightarrow> (case file_rb_tree fh of None \<Rightarrow> [] | Some t \<Rightarrow> rbt_seq t))"

definition table_ok :: "files_handle_t \<Rightarrow> (addr \<Rightarrow> file_t) \<Rightarrow> bool" where
  "table_ok fh st \<longleftrightarrow> (\<exists>t. file_rb_tree fh = Some t \<and> rbt_ok t \<and> key_sorted (file_key st) (rbt_seq t) \<and>
     rb_size t = word_of_nat (length (rbt_seq t)) \<and> length (fd_bitmap fh) = FILE_BITMAP_NUM \<and>
     (\<forall>i<MAX_FILE_NUM. fd_bit (fd_bitmap fh) i \<longleftrightarrow> int i + AOS_CONFIG_VFS_FD_OFFSET \<in> file_key st ` set (rbt_seq t)) \<and>
     (\<forall>a\<in>set (rbt_seq t). a \<noteq> 0 \<and> AOS_CONFIG_VFS_FD_OFFSET \<le> f_fd (st a) \<and> f_fd (st a) < int MAX_FILE_NUM + AOS_CONFIG_VFS_FD_OFFSET))"

definition users :: "'d vfs \<Rightarrow> addr \<Rightarrow> addr set" where
  "users v n = {a \<in> set (open_files v). f_node (files v a) = Some n}"

definition file_ok :: "'d vfs \<Rightarrow> bool" where
  "file_ok v \<longleftrightarrow> (\<exists>fh. files_handle_dev v = Some fh \<and> table_ok fh (files v)) \<and>
     (\<forall>a\<in>set (open_files v). f_node (files v a) \<noteq> NULL) \<and>
     (\<forall>n. unat (i_refs (inodes v n)) = card (users v n))"

lemmas vfs_consts = FILE_BITMAP_NUM_def MAX_FILE_NUM_def AOS_CONFIG_VFS_DEV_NODES_def AOS_CONFIG_VFS_FD_OFFSET_def

lemma file_ok_elim:
  assumes "file_ok v"
  obtains fh t where "files_handle_dev v = Some fh" "file_rb_tree fh = Some t" "open_files v = rbt_seq t" "rbt_ok t"
    "key_sorted (file_key (files v)) (rbt_seq t)" "rb_size t = word_of_nat (length (rbt_seq t))" "length (fd_bitmap fh) = 2"
    "\<And>i. i < 60 \<Longrightarrow> fd_bit (fd_bitmap fh) i \<longleftrightarrow> int i + 2 \<in> file_key (files v) ` set (rbt_seq t)"
    "\<And>a. a \<in> set (rbt_seq t) \<Longrightarrow> a \<noteq> 0 \<and> 2 \<le> f_fd (files v a) \<and> f_fd (files v a) < 62"
  using assms that
  by (auto simp: file_ok_def table_ok_def open_files_def vfs_consts)

lemma key_sorted_inj: "key_sorted key xs \<Longrightarrow> inj_on key (set xs) \<and> distinct xs"
  unfolding key_sorted_def by (induction xs) auto

lemma open_files_count:
  assumes "file_ok v"
  shows "card (set (open_files v)) = length (open_files v)" "length (open_files v) \<le> 60"
    "(\<exists>i<60. int i + 2 \<notin> file_key (files v) ` set (open_files v)) \<longleftrightarrow> length (open_files v) < 60"
proof -
  obtain fh t where v: "open_files v = rbt_seq t" "key_sorted (file_key (files v)) (rbt_seq t)"
    "\<And>a. a \<in> set (rbt_seq t) \<Longrightarrow> a \<noteq> 0 \<and> 2 \<le> f_fd (files v a) \<and> f_fd (files v a) < 62"
    by (rule file_ok_elim [OF assms]) blast
  let ?K = "file_key (files v) ` set (rbt_seq t)" and ?I = "(\<lambda>i. int i + 2) ` {..<60}"
  have c: "card ?K = length (rbt_seq t)" "card (set (rbt_seq t)) = length (rbt_seq t)"
    using key_sorted_inj [OF v(2)] by (auto simp: card_image distinct_card)
  have "x \<in> ?I" if "2 \<le> x" "x < 62" for x :: int
    using that by (intro image_eqI [of _ _ "nat (x - 2)"]) auto
  then have s: "?K \<subseteq> ?I" using v(3) by (auto simp: file_key_def)
  have f: "finite ?I" and ci: "card ?I = 60" by (auto simp: card_image inj_on_def)
  have le: "card ?K \<le> 60" using card_mono [OF f s] ci by simp
  then show "card (set (open_files v)) = length (open_files v)" "length (open_files v) \<le> 60" using c v(1) by auto
  have "card ?K < 60 \<longleftrightarrow> ?K \<noteq> ?I" using card_subset_eq [OF f s] ci le by (metis le_neq_implies_less less_irrefl)
  then show "(\<exists>i<60. int i + 2 \<notin> file_key (files v) ` set (open_files v)) \<longleftrightarrow> length (open_files v) < 60"
    using s c v(1) by auto
qed

lemma get_file_iff:
  assumes "file_ok v" and "0 \<le> fd"
  shows "\<exists>p. get_file v fd = Some p \<and> (\<forall>f. p = Some f \<longleftrightarrow> f \<in> set (open_files v) \<and> f_fd (files v f) = fd)"
proof -
  obtain fh t where v: "files_handle_dev v = Some fh" "file_rb_tree fh = Some t" "open_files v = rbt_seq t"
    "key_sorted (file_key (files v)) (rbt_seq t)"
    "\<And>a. a \<in> set (rbt_seq t) \<Longrightarrow> a \<noteq> 0 \<and> 2 \<le> f_fd (files v a) \<and> f_fd (files v a) < 62"
    by (rule file_ok_elim [OF assms(1)]) blast
  define st where "st = (files v)(0 := (files v 0)\<lparr>f_fd := fd\<rparr>)"
  have st: "f_fd (st 0) = fd" "a \<in> set (rbt_seq t) \<Longrightarrow> f_fd (st a) = f_fd (files v a)" for a using v(5) by (auto simp: st_def)
  have "key_sorted (file_key st) (rbt_seq t)"
    using v(4) st(2) unfolding key_sorted_def file_key_def by (auto elim!: sorted_wrt_mono_rel [rotated])
  then have "rbt_find (file_cmp_cb st) t 0 = Some f \<longleftrightarrow> f \<in> set (rbt_seq t) \<and> file_cmp_cb st f 0 = 0" for f
    by (rule rbt.find_law [OF file_probe])
  then show ?thesis using assms(2) v st
    by (auto simp: get_file_def rbt_find_def st_def [symmetric] file_cmp_sign)
qed

section \<open>Taking and giving back a descriptor\<close>

lemma key_sorted_cong: "key_sorted k xs \<Longrightarrow> (\<And>a. a \<in> set xs \<Longrightarrow> k' a = k a) \<Longrightarrow> key_sorted k' xs"
  unfolding key_sorted_def by (erule sorted_wrt_mono_rel [rotated]) auto

lemma key_sorted_filter_ins:
  assumes "key_sorted k xs" and "\<forall>a\<in>set xs. k a \<noteq> k n"
  shows "key_sorted k (filter (\<lambda>x. k x < k n) xs @ n # filter (\<lambda>x. k x > k n) xs)"
  using assms by (auto simp: key_sorted_def sorted_wrt_append sorted_wrt_filter)

lemma length_filter_ins:
  fixes k :: "'a \<Rightarrow> 'k :: linorder"
  assumes "\<forall>a\<in>set xs. k a \<noteq> k n"
  shows "length (filter (\<lambda>x. k x < k n) xs @ n # filter (\<lambda>x. k x > k n) xs) = Suc (length xs)"
    "set (filter (\<lambda>x. k x < k n) xs @ n # filter (\<lambda>x. k x > k n) xs) = insert n (set xs)"
  using assms by (induction xs) auto

lemma free_fd_iff:
  assumes "file_ok v" and "files_handle_dev v = Some fh"
  shows "word_of_nat MAX_FILE_NUM \<le> rb_tree_size (file_rb_tree fh) \<longleftrightarrow> length (open_files v) = 60"
    "length (open_files v) < 60 \<Longrightarrow> \<exists>fd. fd_scan (fd_bitmap fh) 0 MAX_FILE_NUM = Some fd \<and> fd < 60 \<and>
       int fd + 2 \<notin> file_key (files v) ` set (open_files v) \<and>
       (\<forall>i<fd. int i + 2 \<in> file_key (files v) ` set (open_files v))"
proof -
  obtain t where v: "file_rb_tree fh = Some t" "open_files v = rbt_seq t" "rb_size t = word_of_nat (length (rbt_seq t))"
    "\<And>i. i < 60 \<Longrightarrow> fd_bit (fd_bitmap fh) i \<longleftrightarrow> int i + 2 \<in> file_key (files v) ` set (rbt_seq t)"
    using assms(2) by (auto intro: file_ok_elim [OF assms(1)])
  note c = open_files_count [OF assms(1)]
  have u: "unat (word_of_nat n :: u32) = n" if "n \<le> 60" for n using that by (simp add: unat_of_nat)
  show "word_of_nat MAX_FILE_NUM \<le> rb_tree_size (file_rb_tree fh) \<longleftrightarrow> length (open_files v) = 60"
    using c(2) u [of "length (rbt_seq t)"] u [of 60] v
    by (auto simp: rb_tree_size_def MAX_FILE_NUM_def AOS_CONFIG_VFS_DEV_NODES_def word_le_nat_alt)
  assume "length (open_files v) < 60"
  then obtain i where "i < 60" "\<not> fd_bit (fd_bitmap fh) i" using c(3) v(2,4) by auto
  then have "fd_scan (fd_bitmap fh) 0 MAX_FILE_NUM \<noteq> None"
    by (auto simp: fd_scan_None MAX_FILE_NUM_def AOS_CONFIG_VFS_DEV_NODES_def)
  then obtain fd where fd: "fd_scan (fd_bitmap fh) 0 MAX_FILE_NUM = Some fd" by blast
  then have "fd < 60" "\<not> fd_bit (fd_bitmap fh) fd" "\<forall>j<fd. fd_bit (fd_bitmap fh) j"
    by (auto simp: fd_scan_Some MAX_FILE_NUM_def AOS_CONFIG_VFS_DEV_NODES_def)
  with fd v(2,4) show "\<exists>fd. fd_scan (fd_bitmap fh) 0 MAX_FILE_NUM = Some fd \<and> fd < 60 \<and>
       int fd + 2 \<notin> file_key (files v) ` set (open_files v) \<and> (\<forall>i<fd. int i + 2 \<in> file_key (files v) ` set (open_files v))"
    by (intro exI [of _ fd]) auto
qed

text \<open>Everything but the descriptor table and the reference counts.\<close>

definition vfs_rest :: "'d vfs \<Rightarrow> 'd vfs \<Rightarrow> bool" where
  "vfs_rest v v' \<longleftrightarrow> g_vfs_mutex v' = g_vfs_mutex v \<and> inode_rb_tree v' = inode_rb_tree v \<and> dirs v' = dirs v \<and>
     takes v' = takes v \<and> gives v' = gives v \<and> dev v' = dev v \<and>
     (\<forall>n. (inodes v' n)\<lparr>i_refs := 0\<rparr> = (inodes v n)\<lparr>i_refs := 0\<rparr>)"

lemma new_file_full:
  assumes "file_ok v" and "length (open_files v) = 60"
  shows "new_file v n = Some (NULL, v)"
proof -
  obtain fh where "files_handle_dev v = Some fh" using assms(1) by (auto simp: file_ok_def)
  then show ?thesis using free_fd_iff(1) [OF assms(1)] assms(2) by (simp add: new_file_def)
qed

lemma new_file_ok:
  assumes "file_ok v" and "length (open_files v) < 60" and "mallocs v = Some f # Some m # ms" and "f \<notin> insert 0 (set (open_files v))"
  shows "\<exists>v' fd. new_file v n = Some (Some f, v') \<and> file_ok v' \<and> set (open_files v') = insert f (set (open_files v)) \<and>
    files v' = (files v)(f := \<lparr>f_node = Some n, f_arg = NULL, f_offset = 0, f_fd = int fd + 2\<rparr>) \<and>
    fd < 60 \<and> int fd + 2 \<notin> file_key (files v) ` set (open_files v) \<and>
    (\<forall>i<fd. int i + 2 \<in> file_key (files v) ` set (open_files v)) \<and>
    vfs_rest v v' \<and> mallocs v' = ms \<and> inodes v' = (inodes v)(n := (inodes v n)\<lparr>i_refs := i_refs (inodes v n) + 1\<rparr>)"
proof -
  obtain fh t where v: "files_handle_dev v = Some fh" "file_rb_tree fh = Some t" "open_files v = rbt_seq t" "rbt_ok t"
    "key_sorted (file_key (files v)) (rbt_seq t)" "rb_size t = word_of_nat (length (rbt_seq t))" "length (fd_bitmap fh) = 2"
    "\<And>i. i < 60 \<Longrightarrow> fd_bit (fd_bitmap fh) i \<longleftrightarrow> int i + 2 \<in> file_key (files v) ` set (rbt_seq t)"
    "\<And>a. a \<in> set (rbt_seq t) \<Longrightarrow> a \<noteq> 0 \<and> 2 \<le> f_fd (files v a) \<and> f_fd (files v a) < 62"
    by (rule file_ok_elim [OF assms(1)]) blast
  obtain fd where fd: "fd_scan (fd_bitmap fh) 0 MAX_FILE_NUM = Some fd" "fd < 60"
    "int fd + 2 \<notin> file_key (files v) ` set (rbt_seq t)" "\<forall>i<fd. int i + 2 \<in> file_key (files v) ` set (rbt_seq t)"
    using free_fd_iff(2) [OF assms(1) v(1) assms(2)] v(3) by auto
  have ns: "\<not> word_of_nat MAX_FILE_NUM \<le> rb_tree_size (file_rb_tree fh)" using free_fd_iff(1) [OF assms(1) v(1)] assms(2) by simp
  define st where "st = (files v)(f := \<lparr>f_node = Some n, f_arg = NULL, f_offset = 0, f_fd = int fd + 2\<rparr>)"
  have f: "f \<notin> set (rbt_seq t)" "f \<noteq> 0" using assms(4) v(3) by auto
  have k: "file_key st a = file_key (files v) a" if "a \<in> set (rbt_seq t)" for a
    using that f by (auto simp: file_key_def st_def)
  have kf: "file_key st f = int fd + 2" by (simp add: file_key_def st_def)
  have so: "key_sorted (file_key st) (rbt_seq t)" using v(5) k by (rule key_sorted_cong)
  have ne: "\<forall>a\<in>set (rbt_seq t). file_key st a \<noteq> file_key st f" using fd(3) k kf by (metis image_eqI)
  obtain t' where t': "rb_tree_insert_node (file_cmp_cb st) t (rb_node_init f) = Some (1, t')" "rbt_ok t'"
    "rbt_seq t' = filter (\<lambda>x. file_key st x < file_key st f) (rbt_seq t) @ f # filter (\<lambda>x. file_key st x > file_key st f) (rbt_seq t)"
    "rb_size t' = rb_size t + 1"
    using rb_tree_insert_node_correct [of t "file_cmp_cb st" f] v(4) file_probe [OF so, of f] ne
    by (auto simp: rbt_ok_def rbt_seq_def ins_seq_def has_key_def file_cmp_sign file_key_def)
  define fh' where "fh' = fh\<lparr>fd_bitmap := fd_set (fd_bitmap fh) fd, file_rb_tree := Some t'\<rparr>"
  define v' where "v' = inode_ref (v\<lparr>files := st, mallocs := ms, files_handle_dev := Some fh'\<rparr>) n"
  have new: "new_file v n = Some (Some f, v')"
    using v(1,2) ns fd(1) assms(3) t'(1)
    by (simp add: new_file_def pvPortMalloc_def Let_def st_def rb_tree_insert_def v'_def fh'_def AOS_CONFIG_VFS_FD_OFFSET_def)
  have of: "open_files v' = rbt_seq t'" by (simp add: v'_def inode_ref_def open_files_def fh'_def)
  note len = length_filter_ins [OF ne, folded t'(3)]
  have img: "file_key st ` set (rbt_seq t') = insert (int fd + 2) (file_key (files v) ` set (rbt_seq t))"
    unfolding len(2) using k kf by auto
  have "fd_bit (fd_bitmap fh') i \<longleftrightarrow> int i + 2 \<in> file_key st ` set (rbt_seq t')" if "i < 60" for i
    using fd_bit_set [of fd "fd_bitmap fh" i] that fd(2) v(7,8) unfolding img by (auto simp: fh'_def)
  moreover have "a \<noteq> 0 \<and> 2 \<le> f_fd (st a) \<and> f_fd (st a) < 62" if "a \<in> set (rbt_seq t')" for a
    using that f fd(2) v(9) unfolding len(2) by (auto simp: st_def)
  moreover have "key_sorted (file_key st) (rbt_seq t')" unfolding t'(3) by (rule key_sorted_filter_ins [OF so ne])
  moreover have "rb_size t' = word_of_nat (length (rbt_seq t'))" using t'(4) v(6) len(1) by simp
  moreover have "length (fd_bitmap fh') = 2" "file_rb_tree fh' = Some t'" using v(7) by (simp_all add: fh'_def fd_set_def)
  ultimately have tab: "table_ok fh' st" using t'(2) by (auto simp: table_ok_def vfs_consts)
  have us: "users v' m = (if m = n then insert f (users v m) else users v m)" for m
    using f unfolding users_def of v(3) len(2) by (auto simp: v'_def inode_ref_def st_def)
  have "users v n \<subseteq> set (open_files v)" by (auto simp: users_def)
  then have fin: "finite (users v n)" "card (users v n) < 60" "f \<notin> users v n"
    using card_mono [of "set (open_files v)" "users v n"] open_files_count(1) [OF assms(1)] assms(2,4)
    by (auto intro: finite_subset)
  have refs: "unat (i_refs (inodes v m)) = card (users v m)" for m using assms(1) by (simp add: file_ok_def)
  have "unat (i_refs (inodes v' m)) = card (users v' m)" for m
  proof (cases "m = n")
    case True
    have "unat (i_refs (inodes v n) + 1) = unat (i_refs (inodes v n)) + 1"
      using refs [of n] fin(2) by (simp add: unat_word_ariths)
    then show ?thesis using True fin refs [of n] us [of n] by (simp add: v'_def inode_ref_def)
  next
    case False
    then show ?thesis using refs [of m] us [of m] by (simp add: v'_def inode_ref_def)
  qed
  moreover have "\<forall>a\<in>set (open_files v'). f_node (files v' a) \<noteq> NULL"
    using assms(1) unfolding of len(2) v(3) [symmetric] by (auto simp: v'_def inode_ref_def st_def file_ok_def)
  ultimately have "file_ok v'" using tab by (auto simp: file_ok_def v'_def inode_ref_def)
  moreover have "set (open_files v') = insert f (set (open_files v))" unfolding of v(3) by (rule len(2))
  moreover have "files v' = st" "mallocs v' = ms" "inodes v' = (inodes v)(n := (inodes v n)\<lparr>i_refs := i_refs (inodes v n) + 1\<rparr>)"
    by (simp_all add: v'_def inode_ref_def)
  moreover have "vfs_rest v v'" by (simp add: vfs_rest_def v'_def inode_ref_def)
  ultimately show ?thesis using new fd(2-4) unfolding v(3) st_def by blast
qed

lemma del_file_ok:
  assumes "file_ok v" and "f \<in> set (open_files v)"
  shows "\<exists>v' n. del_file v f = Some v' \<and> f_node (files v f) = Some n \<and> file_ok v' \<and>
    set (open_files v') = set (open_files v) - {f} \<and> files v' = (files v)(f := (files v f)\<lparr>f_node := NULL\<rparr>) \<and>
    vfs_rest v v' \<and> mallocs v' = mallocs v \<and> inodes v' = (inodes v)(n := (inodes v n)\<lparr>i_refs := i_refs (inodes v n) - 1\<rparr>)"
proof -
  obtain fh t where v: "files_handle_dev v = Some fh" "file_rb_tree fh = Some t" "open_files v = rbt_seq t" "rbt_ok t"
    "key_sorted (file_key (files v)) (rbt_seq t)" "rb_size t = word_of_nat (length (rbt_seq t))" "length (fd_bitmap fh) = 2"
    "\<And>i. i < 60 \<Longrightarrow> fd_bit (fd_bitmap fh) i \<longleftrightarrow> int i + 2 \<in> file_key (files v) ` set (rbt_seq t)"
    "\<And>a. a \<in> set (rbt_seq t) \<Longrightarrow> a \<noteq> 0 \<and> 2 \<le> f_fd (files v a) \<and> f_fd (files v a) < 62"
    by (rule file_ok_elim [OF assms(1)]) blast
  obtain n where n: "f_node (files v f) = Some n" using assms by (auto simp: file_ok_def)
  have f: "f \<in> set (rbt_seq t)" using assms(2) v(3) by simp
  have fd2: "2 \<le> f_fd (files v f)" "f_fd (files v f) < 62" using v(9) [OF f] by auto
  define fd where "fd = nat (f_fd (files v f) - 2)"
  have fd: "f_fd (files v f) = int fd + 2" "fd < 60" using fd2 by (auto simp: fd_def)
  define st where "st = (files v)(f := (files v f)\<lparr>f_node := NULL\<rparr>)"
  have k: "file_key st = file_key (files v)" by (rule ext) (simp add: file_key_def st_def)
  note inj = key_sorted_inj [OF v(5)]
  have c0: "file_cmp_cb st x f = 0 \<longleftrightarrow> x = f" if "x \<in> set (rbt_seq t)" for x
    using inj that f unfolding file_cmp_sign inj_on_def file_key_def [symmetric] k by auto
  obtain t' where t': "rb_tree_remove (file_cmp_cb st) (Some t) f = Some (1, Some t')" "rbt_ok t'"
    "rbt_seq t' = filter (\<lambda>x. x \<noteq> f) (rbt_seq t)" "rb_size t' = rb_size t - 1"
  proof -
    have "mono_probe (file_cmp_cb st) f (rbt_seq t)" using v(5) k by (intro file_probe) simp
    moreover have "root t \<noteq> RNil" using f by (auto simp: rbt_seq_def)
    moreover have "filter (\<lambda>x. file_cmp_cb st x f \<noteq> 0) (rbt_seq t) = filter (\<lambda>x. x \<noteq> f) (rbt_seq t)"
      using c0 by (intro filter_cong) auto
    ultimately show thesis using rb_tree_remove_correct [of t "file_cmp_cb st" f] v(4) that
      by (auto simp: rbt_ok_def rbt_seq_def del_seq_def)
  qed
  define fh' where "fh' = fh\<lparr>fd_bitmap := fd_clear (fd_bitmap fh) fd, file_rb_tree := Some t'\<rparr>"
  define v' where "v' = (inode_unref v n)\<lparr>files := st, files_handle_dev := Some fh'\<rparr>"
  have un: "files (inode_unref v n) = files v" "files_handle_dev (inode_unref v n) = files_handle_dev v"
    by (simp_all add: inode_unref_def)
  have rm: "rb_tree_remove (file_cmp_cb st) (file_rb_tree fh) f = Some (1, Some t')" using t'(1) v(2) by simp
  have fst: "f_fd (st f) - 2 = int fd" "f_fd (files v f) - 2 = int fd" "\<not> int fd < 0" "\<not> int fd \<ge> int (32 * length (fd_bitmap fh))"
    using fd v(7) by (simp_all add: st_def)
  have "del_file v f = (do { (_, t) \<leftarrow> rb_tree_remove (file_cmp_cb st) (file_rb_tree fh) f;
      Some ((inode_unref v n)\<lparr>files := st, files_handle_dev := Some (fh\<lparr>fd_bitmap := fd_clear (fd_bitmap fh) fd, file_rb_tree := t\<rparr>)\<rparr>) })"
    unfolding del_file_def Let_def n AOS_CONFIG_VFS_FD_OFFSET_def st_def
    using fst v(1) by (simp add: un)
  then have del: "del_file v f = Some v'" by (simp add: rm v'_def fh'_def)
  have of: "open_files v' = rbt_seq t'" by (simp add: v'_def open_files_def fh'_def)
  have set': "set (rbt_seq t') = set (rbt_seq t) - {f}" unfolding t'(3) by auto
  have img: "file_key st ` set (rbt_seq t') = file_key (files v) ` set (rbt_seq t) - {int fd + 2}"
    using inj f fd(1) unfolding set' k by (auto simp: inj_on_def file_key_def)
  have len: "length (rbt_seq t) = Suc (length (rbt_seq t'))"
  proof -
    have "card (set (rbt_seq t)) = Suc (card (set (rbt_seq t) - {f}))" using f by (intro card.remove) auto
    moreover have "distinct (rbt_seq t)" "distinct (rbt_seq t')" using inj unfolding t'(3) by auto
    ultimately show ?thesis unfolding set' [symmetric] by (metis distinct_card)
  qed
  have "fd_bit (fd_bitmap fh') i \<longleftrightarrow> int i + 2 \<in> file_key st ` set (rbt_seq t')" if "i < 60" for i
    using fd_bit_clear [of fd "fd_bitmap fh" i] that fd(2) v(7,8) unfolding img by (auto simp: fh'_def)
  moreover have "a \<noteq> 0 \<and> 2 \<le> f_fd (st a) \<and> f_fd (st a) < 62" if "a \<in> set (rbt_seq t')" for a
    using that v(9) unfolding set' by (auto simp: st_def)
  moreover have "key_sorted (file_key st) (rbt_seq t')" using v(5) unfolding t'(3) k by (auto simp: key_sorted_def sorted_wrt_filter)
  moreover have "rb_size t' = word_of_nat (length (rbt_seq t'))" using t'(4) v(6) len by simp
  moreover have "length (fd_bitmap fh') = 2" "file_rb_tree fh' = Some t'" using v(7) by (simp_all add: fh'_def fd_clear_def)
  ultimately have tab: "table_ok fh' st" using t'(2) by (auto simp: table_ok_def vfs_consts)
  have us: "users v' m = users v m - {f}" for m
    unfolding users_def of set' v(3) by (auto simp: v'_def st_def)
  have fin: "finite (users v m)" "f \<in> users v m \<longleftrightarrow> m = n" for m using n f v(3) by (auto simp: users_def)
  have refs: "unat (i_refs (inodes v m)) = card (users v m)" for m using assms(1) by (simp add: file_ok_def)
  have pos: "0 < card (users v n)" using fin [of n] by (auto simp: card_gt_0_iff)
  then have p: "i_refs (inodes v n) > 0" using refs [of n] by (simp add: word_less_nat_alt)
  then have ino: "inodes v' = (inodes v)(n := (inodes v n)\<lparr>i_refs := i_refs (inodes v n) - 1\<rparr>)"
    by (simp add: v'_def inode_unref_def)
  have "unat (i_refs (inodes v' m)) = card (users v' m)" for m
    using refs [of m] fin [of m] p us [of m] by (cases "m = n") (simp_all add: ino unat_minus_one card_Diff_singleton)
  moreover have "\<forall>a\<in>set (open_files v'). f_node (files v' a) \<noteq> NULL"
    using assms(1) unfolding of set' v(3) [symmetric] by (auto simp: v'_def st_def file_ok_def)
  ultimately have "file_ok v'" using tab by (auto simp: file_ok_def v'_def)
  moreover have "set (open_files v') = set (open_files v) - {f}" unfolding of v(3) by (rule set')
  moreover have "files v' = st" "mallocs v' = mallocs v" by (simp_all add: v'_def inode_unref_def)
  moreover have "vfs_rest v v'" using ino by (simp add: vfs_rest_def) (simp add: v'_def inode_unref_def)
  ultimately show ?thesis using del n ino unfolding st_def by blast
qed

end
