(* ===== verification/Vfs_Inode_Props.thy ===== *)
theory Vfs_Inode_Props
  imports Vfs_File_Props "HOL-Library.Char_ord" "HOL-Library.List_Lexorder" "HOL-Library.Sublist"
begin

text \<open>
  The inode table: how \<open>inode_cmp_cb\<close> orders the registered nodes, and what a lookup, a registration
  and a release do to the set of nodes. The order is a strict order by name as long as no mount
  point is a proper prefix of another registered name.
\<close>

section \<open>The comparison\<close>

definition nul_free :: "string \<Rightarrow> bool" where
  "nul_free s \<longleftrightarrow> CHR 0x00 \<notin> set s"

lemma nul_free_simps [simp]: "nul_free []" "nul_free (a # s) \<longleftrightarrow> a \<noteq> CHR 0x00 \<and> nul_free s" "nul_free (s @ t) \<longleftrightarrow> nul_free s \<and> nul_free t"
  by (auto simp: nul_free_def)

lemma of_char_pos: "a \<noteq> CHR 0x00 \<longleftrightarrow> (0 :: int) < int (of_char a)"
proof -
  have "of_char a = (of_char CHR 0x00 :: nat) \<longleftrightarrow> a = CHR 0x00" by (rule of_char_eq_iff)
  then have "a \<noteq> CHR 0x00 \<longleftrightarrow> (0 :: nat) < of_char a" by (simp add: zero_less_iff_neq_zero)
  then show ?thesis by (simp only: of_nat_0_less_iff)
qed

lemma c_strncmp_full:
  assumes "nul_free s" and "nul_free t" and "length s < n \<or> length t < n"
  shows "c_strncmp n s t < 0 \<longleftrightarrow> s < t" "c_strncmp n s t = 0 \<longleftrightarrow> s = t" "0 < c_strncmp n s t \<longleftrightarrow> t < s"
  using assms by (induction n s t rule: c_strncmp.induct) (auto simp: of_char_pos less_char_def)

lemma c_strncmp_prefix:
  assumes "nul_free s" and "nul_free t"
  shows "c_strncmp (length s) s t < 0 \<longleftrightarrow> s < t \<and> \<not> prefix s t" "c_strncmp (length s) s t = 0 \<longleftrightarrow> prefix s t"
    "0 < c_strncmp (length s) s t \<longleftrightarrow> t < s"
    "0 < c_strncmp (length s) t s \<longleftrightarrow> s < t \<and> \<not> prefix s t" "c_strncmp (length s) t s = 0 \<longleftrightarrow> prefix s t"
    "c_strncmp (length s) t s < 0 \<longleftrightarrow> t < s"
  using assms by (induction s t rule: list_induct2') (auto simp: of_char_pos less_char_def)

text \<open>The part of a path below a mount point starts with a slash.\<close>

definition below :: "string \<Rightarrow> string \<Rightarrow> bool" where
  "below m path \<longleftrightarrow> prefix (m @ ''/'') path"

definition is_fs :: "inode_t \<Rightarrow> bool" where
  "is_fs n \<longleftrightarrow> i_type n = VFS_TYPE_FS_DEV"

definition slash_sign :: "string \<Rightarrow> string \<Rightarrow> int" where
  "slash_sign m path = int (of_char (path ! length m)) - int (of_char (CHR ''/''))"

lemma strict_prefix_split: "strict_prefix m p \<Longrightarrow> \<exists>c r. p = m @ c # r"
  by (metis append_Nil2 list.exhaust prefix_def strict_prefix_def)

lemma slash_step: "strict_prefix m p \<Longrightarrow> nul_free p \<Longrightarrow> c_strncmp 1 (drop (length m) p) ''/'' = slash_sign m p"
  by (drule strict_prefix_split) (auto simp: slash_sign_def One_nat_def)

lemma slash_zero: "strict_prefix m p \<Longrightarrow> slash_sign m p = 0 \<longleftrightarrow> below m p"
proof -
  assume "strict_prefix m p"
  then obtain c r where p: "p = m @ c # r" using strict_prefix_split by blast
  have "of_char c = (of_char CHR ''/'' :: nat) \<longleftrightarrow> c = CHR ''/''" by (rule of_char_eq_iff)
  then show ?thesis by (auto simp: p slash_sign_def below_def prefix_def)
qed

lemma inode_cmp_same:
  assumes "nul_free (name_of a)" "nul_free (name_of b)"
    and "\<not> (is_fs a \<and> \<not> is_fs b \<and> strict_prefix (name_of a) (name_of b))"
    and "\<not> (\<not> is_fs a \<and> is_fs b \<and> strict_prefix (name_of b) (name_of a))"
  shows "inode_cmp a b = 0 \<longleftrightarrow> name_of a = name_of b" "inode_cmp a b < 0 \<longleftrightarrow> name_of a < name_of b"
    "0 < inode_cmp a b \<longleftrightarrow> name_of b < name_of a"
proof -
  let ?a = "name_of a" and ?b = "name_of b"
  consider "is_fs a = is_fs b" | "is_fs a" "\<not> is_fs b" | "\<not> is_fs a" "is_fs b" by blast
  then have "(inode_cmp a b = 0 \<longleftrightarrow> ?a = ?b) \<and> (inode_cmp a b < 0 \<longleftrightarrow> ?a < ?b) \<and> (0 < inode_cmp a b \<longleftrightarrow> ?b < ?a)"
  proof cases
    case 1
    then have "inode_cmp a b = c_strcmp ?a ?b" by (simp add: inode_cmp_def is_fs_def)
    then show ?thesis using c_strncmp_full [OF assms(1,2), of "Suc (length ?a)"] by (simp add: c_strcmp_def)
  next
    case 2
    then have p: "prefix ?a ?b \<longleftrightarrow> ?a = ?b" using assms(3) by (auto simp: strict_prefix_def)
    have "inode_cmp a b = c_strncmp (length ?a) ?a ?b"
      using 2 c_strncmp_prefix(2) [OF assms(1,2)] p by (auto simp: inode_cmp_def is_fs_def Let_def)
    then show ?thesis using c_strncmp_prefix [OF assms(1,2)] p by auto
  next
    case 3
    then have p: "prefix ?b ?a \<longleftrightarrow> ?a = ?b" using assms(4) by (auto simp: strict_prefix_def)
    have "inode_cmp a b = c_strncmp (length ?b) ?a ?b"
      using 3 c_strncmp_prefix(5) [OF assms(2,1)] p by (auto simp: inode_cmp_def is_fs_def Let_def)
    then show ?thesis using c_strncmp_prefix [OF assms(2,1)] p by auto
  qed
  then show "inode_cmp a b = 0 \<longleftrightarrow> ?a = ?b" "inode_cmp a b < 0 \<longleftrightarrow> ?a < ?b" "0 < inode_cmp a b \<longleftrightarrow> ?b < ?a" by auto
qed

lemma inode_cmp_mount:
  assumes "nul_free (name_of a)" "nul_free (name_of b)" "is_fs a" "\<not> is_fs b" "strict_prefix (name_of a) (name_of b)"
  shows "inode_cmp a b = slash_sign (name_of a) (name_of b)"
proof -
  have "length (name_of a) < length (name_of b)" using assms(5) by (rule prefix_length_less)
  moreover have "c_strncmp (length (name_of a)) (name_of a) (name_of b) = 0"
    using c_strncmp_prefix [of "name_of a" "name_of b"] assms by (auto simp: strict_prefix_def)
  ultimately show ?thesis using assms slash_step [OF assms(5,2)] by (auto simp: inode_cmp_def is_fs_def Let_def)
qed

section \<open>The order of the table\<close>

definition inode_key :: "(addr \<Rightarrow> inode_t) \<Rightarrow> addr \<Rightarrow> string" where
  "inode_key st a = name_of (st a)"

definition names_apart :: "(addr \<Rightarrow> inode_t) \<Rightarrow> addr set \<Rightarrow> bool" where
  "names_apart st A \<longleftrightarrow> (\<forall>a\<in>A. nul_free (inode_key st a) \<and> (is_fs (st a) \<longrightarrow> (\<forall>b\<in>A. \<not> strict_prefix (inode_key st a) (inode_key st b))))"

lemma prefix_between:
  assumes "(m :: string) < y" and "y < p" and "prefix m p"
  shows "strict_prefix m y"
  using assms
proof (induction m arbitrary: y p)
  case Nil
  then show ?case by (cases y) auto
next
  case (Cons c m)
  then obtain p' where p: "p = c # p'" "prefix m p'" by (cases p) auto
  with Cons.prems obtain y' where "y = c # y'" "m < y'" "y' < p'" by (cases y) (auto dest: less_asym)
  with Cons.IH p(2) show ?case by auto
qed

lemma prefix_le: "prefix (s :: string) t \<Longrightarrow> s \<le> t"
  by (induction s t rule: list_induct2') auto

text \<open>A lookup probes with a node that is no file system, so a mount point may answer for a longer path.\<close>

lemma inode_probe:
  assumes "key_sorted (inode_key st) xs" and "names_apart st (set xs)" and "nul_free (inode_key st n)" and "\<not> is_fs (st n)"
  shows "mono_probe (inode_cmp_cb st) n xs"
proof -
  have "0 < inode_cmp (st b) (st n)"
    if ab: "a \<in> set xs" "b \<in> set xs" "inode_key st a < inode_key st b" and ge: "0 \<le> inode_cmp (st a) (st n)" for a b
  proof -
    let ?a = "name_of (st a)" and ?b = "name_of (st b)" and ?n = "name_of (st n)"
    have nf: "nul_free ?a" "nul_free ?b" "nul_free ?n" and ap: "is_fs (st a) \<longrightarrow> \<not> strict_prefix ?a ?b"
      using assms(2,3) ab by (auto simp: names_apart_def inode_key_def)
    have "?n < ?b"
    proof (cases "is_fs (st a) \<and> strict_prefix ?a ?n")
      case True
      then show ?thesis using prefix_between [of ?a ?b ?n] ap ab(3) by (metis inode_key_def neq_iff strict_prefix_def)
    next
      case False
      then show ?thesis using inode_cmp_same [of "st a" "st n"] nf assms(4) ge ab(3)
        by (metis inode_key_def le_less_trans less_le_not_le linorder_not_less order.strict_trans1)
    qed
    moreover from this have "\<not> strict_prefix ?b ?n" using prefix_le [of ?b ?n] by (auto simp: strict_prefix_def)
    ultimately show ?thesis using inode_cmp_same [of "st b" "st n"] nf assms(4) by blast
  qed
  with assms(1) show ?thesis unfolding mono_probe_def key_sorted_def inode_cmp_cb_def
    by (auto elim!: sorted_wrt_mono_rel [rotated])
qed

lemma inode_cmp_member:
  assumes "names_apart st A" and "a \<in> A" and "b \<in> A"
  shows "inode_cmp_cb st a b = 0 \<longleftrightarrow> inode_key st a = inode_key st b" "inode_cmp_cb st a b < 0 \<longleftrightarrow> inode_key st a < inode_key st b"
    "0 < inode_cmp_cb st a b \<longleftrightarrow> inode_key st b < inode_key st a"
  using inode_cmp_same [of "st a" "st b"] assms by (auto simp: names_apart_def inode_key_def inode_cmp_cb_def)

lemma inode_probe_member:
  assumes "key_sorted (inode_key st) xs" and "names_apart st (set xs)" and "n \<in> set xs"
  shows "mono_probe (inode_cmp_cb st) n xs"
proof -
  have "inode_cmp_cb st a n \<ge> 0 \<longrightarrow> inode_cmp_cb st b n > 0"
    if "a \<in> set xs" "b \<in> set xs" "inode_key st a < inode_key st b" for a b
    using that inode_cmp_member [OF assms(2) _ assms(3)] by (metis less_le_trans linorder_not_less)
  with assms(1) show ?thesis unfolding mono_probe_def key_sorted_def by (auto elim!: sorted_wrt_mono_rel [rotated])
qed

section \<open>Invariant and lookup\<close>

definition registered :: "'d vfs \<Rightarrow> addr list" where
  "registered v = (case inode_rb_tree v of None \<Rightarrow> [] | Some t \<Rightarrow> rbt_seq t)"

text \<open>
  The number of nodes of the tree counts an insertion that met an equal name as well, so it bounds the
  nodes from above.
\<close>

definition inode_ok :: "'d vfs \<Rightarrow> bool" where
  "inode_ok v \<longleftrightarrow> (\<exists>t. inode_rb_tree v = Some t \<and> rbt_ok t \<and> length (rbt_seq t) \<le> unat (rb_size t) \<and> unat (rb_size t) \<le> AOS_CONFIG_VFS_DEV_NODES) \<and>
     key_sorted (inode_key (inodes v)) (registered v) \<and> names_apart (inodes v) (set (registered v)) \<and>
     (\<forall>a\<in>set (registered v). a \<noteq> 0 \<and> i_name (inodes v a) \<noteq> None)"

lemma inode_ok_elim:
  assumes "inode_ok v"
  obtains t where "inode_rb_tree v = Some t" "registered v = rbt_seq t" "rbt_ok t" "length (rbt_seq t) \<le> unat (rb_size t)"
    "unat (rb_size t) \<le> 30" "key_sorted (inode_key (inodes v)) (rbt_seq t)" "names_apart (inodes v) (set (rbt_seq t))"
    "0 \<notin> set (rbt_seq t)" "\<And>a. a \<in> set (rbt_seq t) \<Longrightarrow> i_name (inodes v a) \<noteq> None"
proof -
  obtain t where t: "inode_rb_tree v = Some t" "rbt_ok t" "length (rbt_seq t) \<le> unat (rb_size t)" "unat (rb_size t) \<le> 30"
    using assms by (auto simp: inode_ok_def vfs_consts)
  moreover have r: "registered v = rbt_seq t" using t(1) by (simp add: registered_def)
  moreover have "0 \<notin> set (rbt_seq t)" "\<And>a. a \<in> set (rbt_seq t) \<Longrightarrow> i_name (inodes v a) \<noteq> None"
    "key_sorted (inode_key (inodes v)) (rbt_seq t)" "names_apart (inodes v) (set (rbt_seq t))"
    using assms unfolding inode_ok_def r by blast+
  ultimately show thesis using that by blast
qed

lemma inode_okI:
  assumes "inode_rb_tree v = Some t" "rbt_ok t" "length (rbt_seq t) \<le> unat (rb_size t)" "unat (rb_size t) \<le> 30"
    "key_sorted (inode_key (inodes v)) (rbt_seq t)" "names_apart (inodes v) (set (rbt_seq t))"
    "0 \<notin> set (rbt_seq t)" "\<And>a. a \<in> set (rbt_seq t) \<Longrightarrow> i_name (inodes v a) \<noteq> None"
  shows "inode_ok v"
  using assms by (auto simp: inode_ok_def registered_def vfs_consts intro: gr0I)

text \<open>Which nodes answer for a path: the one with that name, and a file system mounted above it.\<close>

definition answers :: "inode_t \<Rightarrow> string \<Rightarrow> bool" where
  "answers n path \<longleftrightarrow> name_of n = path \<or> is_fs n \<and> below (name_of n) path"

lemma below_strict: "below m p \<Longrightarrow> strict_prefix m p"
  by (auto simp: below_def prefix_def strict_prefix_def)

lemma inode_cmp_answers:
  assumes "nul_free (name_of a)" "nul_free (name_of b)" "\<not> is_fs b"
  shows "inode_cmp a b = 0 \<longleftrightarrow> answers a (name_of b)"
proof (cases "is_fs a \<and> strict_prefix (name_of a) (name_of b)")
  case True
  then show ?thesis using inode_cmp_mount [OF assms(1,2)] assms(3) slash_zero by (auto simp: answers_def)
next
  case False
  then show ?thesis using inode_cmp_same(1) [OF assms(1,2)] assms(3) below_strict by (auto simp: answers_def)
qed

lemma names_apart_cong: "names_apart st A \<Longrightarrow> (\<And>a. a \<in> A \<Longrightarrow> name_of (st' a) = name_of (st a) \<and> is_fs (st' a) = is_fs (st a)) \<Longrightarrow> names_apart st' A"
  by (simp add: names_apart_def inode_key_def)

lemma inode_open_iff:
  assumes "inode_ok v" and "nul_free path"
  shows "inode_open v path = Some n \<longleftrightarrow> n \<in> set (registered v) \<and> answers (inodes v n) path"
proof -
  obtain t where t: "inode_rb_tree v = Some t" "registered v = rbt_seq t" "key_sorted (inode_key (inodes v)) (rbt_seq t)"
    "names_apart (inodes v) (set (rbt_seq t))" "0 \<notin> set (rbt_seq t)"
    by (rule inode_ok_elim [OF assms(1)]) blast
  define st where "st = (inodes v)(0 := inode0\<lparr>i_name := Some path\<rparr>)"
  have eq: "st a = inodes v a" if "a \<in> set (rbt_seq t)" for a using that t(5) by (auto simp: st_def)
  have p: "name_of (st 0) = path" "\<not> is_fs (st 0)" by (auto simp: st_def name_of_def is_fs_def inode0_def)
  have na: "names_apart st (set (rbt_seq t))" using t(4) by (rule names_apart_cong) (simp add: eq)
  have ks: "key_sorted (inode_key st) (rbt_seq t)" using t(3) by (rule key_sorted_cong) (simp add: eq inode_key_def)
  have "mono_probe (inode_cmp_cb st) 0 (rbt_seq t)" using inode_probe [OF ks na] p assms(2) by (simp add: inode_key_def)
  then have "rbt_find (inode_cmp_cb st) t 0 = Some n \<longleftrightarrow> n \<in> set (rbt_seq t) \<and> inode_cmp_cb st n 0 = 0" by (rule rbt.find_law)
  then show ?thesis using t(1,2) p na assms(2) inode_cmp_answers [of "st n" "st 0"] eq
    by (auto simp: inode_open_def rbt_find_def st_def [symmetric] names_apart_def inode_key_def inode_cmp_cb_def)
qed

section \<open>Registration and release\<close>

lemma word_Suc_small: "(s :: u32) < 30 \<Longrightarrow> unat (s + 1) = Suc (unat s)"
  by (simp add: word_less_nat_alt unat_word_ariths)

lemma ins_seq_length: "length (ins_seq cmp n xs) \<le> Suc (length xs)"
proof -
  have "length (filter (\<lambda>x. cmp x n < 0) xs) + length (filter (\<lambda>x. cmp x n > 0) xs) \<le> length xs"
    by (induction xs) auto
  then show ?thesis by (simp add: ins_seq_def)
qed

lemma inode_table_insert:
  assumes "key_sorted (inode_key st) xs" and "names_apart st (set xs)" and "nul_free (inode_key st a)" and "\<not> is_fs (st a)"
    and "\<And>x. x \<in> set xs \<Longrightarrow> is_fs (st x) \<Longrightarrow> strict_prefix (inode_key st x) (inode_key st a) \<Longrightarrow> below (inode_key st x) (inode_key st a)"
  shows "key_sorted (inode_key st) (ins_seq (inode_cmp_cb st) a xs)" (is ?A)
    and "names_apart st (set (ins_seq (inode_cmp_cb st) a xs))" (is ?B)
    and "set (ins_seq (inode_cmp_cb st) a xs) = (if \<exists>x\<in>set xs. answers (st x) (inode_key st a) then set xs else insert a (set xs))" (is ?C)
proof -
  have ans: "inode_cmp_cb st x a = 0 \<longleftrightarrow> answers (st x) (inode_key st a)" if "x \<in> set xs" for x
    using inode_cmp_answers [of "st x" "st a"] assms that by (auto simp: inode_cmp_cb_def names_apart_def inode_key_def)
  have "?A \<and> ?B \<and> ?C"
  proof (cases "has_key (inode_cmp_cb st) a xs")
    case True
    then show ?thesis using assms ans by (auto simp: ins_seq_def has_key_def)
  next
    case False
    have pre: "\<not> (is_fs (st x) \<and> strict_prefix (inode_key st x) (inode_key st a))" if "x \<in> set xs" for x
      using assms(5) [OF that] False that ans [OF that] by (auto simp: has_key_def answers_def inode_key_def)
    have cs: "inode_cmp_cb st x a < 0 \<longleftrightarrow> inode_key st x < inode_key st a" "0 < inode_cmp_cb st x a \<longleftrightarrow> inode_key st a < inode_key st x"
      "inode_key st x \<noteq> inode_key st a" if "x \<in> set xs" for x
      using inode_cmp_same [of "st x" "st a"] pre [OF that] assms that False
      by (auto simp: inode_cmp_cb_def inode_key_def names_apart_def has_key_def)
    have sq: "ins_seq (inode_cmp_cb st) a xs = filter (\<lambda>x. inode_key st x < inode_key st a) xs @ a # filter (\<lambda>x. inode_key st x > inode_key st a) xs"
      using False cs(1,2) by (simp add: ins_seq_def cong: filter_cong)
    have ne: "\<forall>x\<in>set xs. inode_key st x \<noteq> inode_key st a" using cs(3) by blast
    have st: "set (ins_seq (inode_cmp_cb st) a xs) = insert a (set xs)" unfolding sq by (rule length_filter_ins(2) [OF ne])
    have ?A unfolding sq by (rule key_sorted_filter_ins [OF assms(1) ne])
    moreover have ?B using assms(2-4) pre unfolding st by (auto simp: names_apart_def)
    moreover have ?C using False ans st by (auto simp: has_key_def)
    ultimately show ?thesis by blast
  qed
  then show ?A ?B ?C by blast+
qed

lemma inode_reserve_full:
  assumes "inode_rb_tree v = Some t" and "30 \<le> rb_size t" and "p \<noteq> []" and "hd p = CHR ''/''"
  shows "inode_reserve v (Some p) = Some (- EINVAL, NULL, v)"
  using assms by (simp add: inode_reserve_def rb_tree_size_def vfs_consts)

lemma inode_reserve_ok:
  assumes "inode_ok v" and "inode_rb_tree v = Some t" and "rb_size t < 30" and "p \<noteq> []" and "hd p = CHR ''/''" and "nul_free p"
    and "mallocs v = Some a # Some b # Some c # ms" and "a \<notin> insert 0 (set (registered v))"
    and "\<And>n. n \<in> set (registered v) \<Longrightarrow> is_fs (inodes v n) \<Longrightarrow> strict_prefix (inode_key (inodes v) n) p \<Longrightarrow> below (inode_key (inodes v) n) p"
  shows "\<exists>v'. inode_reserve v (Some p) = Some (VFS_SUCCESS, Some a, v') \<and> inode_ok v' \<and>
    v' = v\<lparr>inodes := (inodes v)(a := inode0\<lparr>i_name := Some p\<rparr>), mallocs := ms, inode_rb_tree := inode_rb_tree v'\<rparr> \<and>
    set (registered v') = (if inode_open v p = None then insert a (set (registered v)) else set (registered v))"
proof -
  have t: "registered v = rbt_seq t" "rbt_ok t" "length (rbt_seq t) \<le> unat (rb_size t)"
    "key_sorted (inode_key (inodes v)) (rbt_seq t)" "names_apart (inodes v) (set (rbt_seq t))"
    "0 \<notin> set (rbt_seq t)" "\<And>a. a \<in> set (rbt_seq t) \<Longrightarrow> i_name (inodes v a) \<noteq> None"
    using assms(2) by (auto intro: inode_ok_elim [OF assms(1)])
  define st where "st = (inodes v)(a := inode0\<lparr>i_name := Some p\<rparr>)"
  have a: "a \<notin> set (rbt_seq t)" "a \<noteq> 0" using assms(8) t(1) by auto
  have eq: "st x = inodes v x" if "x \<in> set (rbt_seq t)" for x using that a by (auto simp: st_def)
  have pr: "name_of (st a) = p" "\<not> is_fs (st a)" "i_name (st a) = Some p" by (auto simp: st_def name_of_def is_fs_def inode0_def)
  have na: "names_apart st (set (rbt_seq t))" using t(5) by (rule names_apart_cong) (simp add: eq)
  have ks: "key_sorted (inode_key st) (rbt_seq t)" using t(4) by (rule key_sorted_cong) (simp add: eq inode_key_def)
  have mp: "mono_probe (inode_cmp_cb st) a (rbt_seq t)" using inode_probe [OF ks na] pr assms(6) by (simp add: inode_key_def)
  have aa: "inode_cmp_cb st a a = 0" using inode_cmp_same(1) [of "st a" "st a"] pr assms(6) by (simp add: inode_cmp_cb_def)
  obtain t' where t': "rb_tree_insert_node (inode_cmp_cb st) t (rb_node_init a) = Some (1, t')" "rbt_ok t'"
    "rbt_seq t' = ins_seq (inode_cmp_cb st) a (rbt_seq t)" "rb_size t' = rb_size t + 1"
    using rb_tree_insert_node_correct [of t "inode_cmp_cb st" a] t(2) mp aa by (auto simp: rbt_ok_def rbt_seq_def)
  define v' where "v' = v\<lparr>inodes := st, mallocs := ms, inode_rb_tree := Some t'\<rparr>"
  have res: "inode_reserve v (Some p) = Some (VFS_SUCCESS, Some a, v')"
    using assms(2-5,7) t'(1)
    by (simp add: inode_reserve_def rb_tree_size_def vfs_consts linorder_not_le inode_alloc_def pvPortMalloc_def inode_set_name_def
        rb_tree_insert_def v'_def Let_def st_def)
  have nf: "nul_free (inode_key st a)" using pr assms(6) by (simp add: inode_key_def)
  have "below (inode_key st x) (inode_key st a)"
    if "x \<in> set (rbt_seq t)" "is_fs (st x)" "strict_prefix (inode_key st x) (inode_key st a)" for x
    using assms(9) [of x] that eq [OF that(1)] pr t(1) by (simp add: inode_key_def)
  note ins = inode_table_insert [OF ks na nf pr(2) this, folded t'(3)]
  have op: "(\<exists>x\<in>set (rbt_seq t). answers (st x) (inode_key st a)) \<longleftrightarrow> inode_open v p \<noteq> None"
    using inode_open_iff [OF assms(1,6)] pr t(1) eq by (auto simp: inode_key_def)
  have sz: "length (rbt_seq t') \<le> unat (rb_size t')" "unat (rb_size t') \<le> 30"
    using ins_seq_length [of "inode_cmp_cb st" a "rbt_seq t"] t(3) word_Suc_small [OF assms(3)] assms(3) t'(3,4)
    by (auto simp: word_less_nat_alt)
  have "inode_ok v'"
    using t'(2) sz ins t(6,7) a pr by (intro inode_okI [of _ t']) (auto simp: v'_def eq split: if_splits)
  then show ?thesis using res ins(3) op t(1) by (intro exI [of _ v']) (auto simp: v'_def st_def registered_def)
qed

lemma inode_release_ok:
  assumes "inode_ok v" and "nul_free p"
  shows "\<exists>v'. inode_release v (Some p) = Some (case inode_open v p of None \<Rightarrow> - ENODEV | Some n \<Rightarrow> if i_refs (inodes v n) > 0 then - EBUSY else VFS_SUCCESS, v') \<and>
    inode_ok v' \<and> v' = v\<lparr>inode_rb_tree := inode_rb_tree v'\<rparr> \<and>
    set (registered v') = set (registered v) - {n. inode_open v p = Some n \<and> i_refs (inodes v n) = 0}"
proof -
  obtain t where t: "inode_rb_tree v = Some t" "registered v = rbt_seq t" "rbt_ok t" "length (rbt_seq t) \<le> unat (rb_size t)"
    "unat (rb_size t) \<le> 30" "key_sorted (inode_key (inodes v)) (rbt_seq t)" "names_apart (inodes v) (set (rbt_seq t))"
    "0 \<notin> set (rbt_seq t)" "\<And>a. a \<in> set (rbt_seq t) \<Longrightarrow> i_name (inodes v a) \<noteq> None"
    by (rule inode_ok_elim [OF assms(1)]) blast
  show ?thesis
  proof (cases "\<exists>n. inode_open v p = Some n \<and> i_refs (inodes v n) = 0")
    case False
    then show ?thesis using assms(1)
      by (intro exI [of _ v]) (auto simp: inode_release_def inode_del_def word_neq_0_conv EBUSY_def split: option.splits)
  next
    case True
    then obtain n where n: "inode_open v p = Some n" "i_refs (inodes v n) = 0" by blast
    then have nt: "n \<in> set (rbt_seq t)" using inode_open_iff [OF assms] t(2) by simp
    define st where "st = inodes v"
    have "mono_probe (inode_cmp_cb st) n (rbt_seq t)" using inode_probe_member [OF t(6,7) nt] by (simp add: st_def)
    moreover have "root t \<noteq> RNil" using nt by (auto simp: rbt_seq_def)
    ultimately obtain t' where t': "rb_tree_remove (inode_cmp_cb st) (Some t) n = Some (1, Some t')" "rbt_ok t'"
      "rbt_seq t' = filter (\<lambda>x. inode_cmp_cb st x n \<noteq> 0) (rbt_seq t)" "rb_size t' = rb_size t - 1"
      using rb_tree_remove_correct [of t "inode_cmp_cb st" n] t(3) by (auto simp: rbt_ok_def rbt_seq_def del_seq_def)
    have c0: "inode_cmp_cb st x n = 0 \<longleftrightarrow> x = n" if "x \<in> set (rbt_seq t)" for x
      using inode_cmp_member(1) [OF t(7) that nt] key_sorted_inj [OF t(6)] that nt by (auto simp: st_def inj_on_def)
    then have sq: "rbt_seq t' = filter (\<lambda>x. x \<noteq> n) (rbt_seq t)" unfolding t'(3) by (auto intro: filter_cong)
    then have sub: "set (rbt_seq t') = set (rbt_seq t) - {n}" by auto
    have len: "length (rbt_seq t') < length (rbt_seq t)" using nt unfolding sq by (metis (mono_tags) length_filter_less)
    then have u: "unat (rb_size t') = unat (rb_size t) - 1" using t(4) t'(4) by (simp add: unat_minus_one unat_eq_0 [symmetric])
    define v' where "v' = v\<lparr>inode_rb_tree := Some t'\<rparr>"
    have "inode_ok v'"
    proof (rule inode_okI [of _ t'])
      show "key_sorted (inode_key (inodes v')) (rbt_seq t')" using t(6) unfolding sq by (simp add: v'_def key_sorted_def sorted_wrt_filter)
      show "names_apart (inodes v') (set (rbt_seq t'))" using t(7) unfolding sub by (auto simp: v'_def names_apart_def)
    qed (use t' u len t sub in \<open>auto simp: v'_def\<close>)
    moreover have "inode_release v (Some p) = Some (VFS_SUCCESS, v')"
      using n t'(1) t(1) by (simp add: inode_release_def inode_del_def v'_def st_def VFS_SUCCESS_def)
    ultimately show ?thesis using n t(2) sub by (intro exI [of _ v']) (auto simp: v'_def registered_def)
  qed
qed

end
