(* ===== verification/Vfs_Props.thy ===== *)
theory Vfs_Props
  imports Vfs_Inode_Props
begin

unbundle bit_operations_syntax

text \<open>
  The system calls. A driver or file system may do what it likes to its device and to the private
  fields of the open files; under that contract every call keeps the descriptor table, the inode
  table and the reference counts consistent.
\<close>

section \<open>The invariant of the file system layer\<close>

text \<open>The addresses the heap still hands out are not those of live structs.\<close>

definition heap_fresh :: "'d vfs \<Rightarrow> bool" where
  "heap_fresh v \<longleftrightarrow> distinct (filter (\<lambda>p. p \<noteq> NULL) (mallocs v)) \<and>
     (\<forall>a. Some a \<in> set (mallocs v) \<longrightarrow> a \<noteq> 0 \<and> a \<notin> set (open_files v) \<and> a \<notin> set (registered v))"

definition vfs_inv :: "'d vfs \<Rightarrow> bool" where
  "vfs_inv v \<longleftrightarrow> file_ok v \<and> inode_ok v \<and> heap_fresh v \<and>
     (\<forall>f\<in>set (open_files v). \<exists>n\<in>set (registered v). f_node (files v f) = Some n)"

text \<open>What a driver or file system may change of the state of the layer.\<close>

definition vfs_keep :: "'d vfs \<Rightarrow> 'd vfs \<Rightarrow> bool" where
  "vfs_keep v v' \<longleftrightarrow> g_vfs_mutex v' = g_vfs_mutex v \<and> inode_rb_tree v' = inode_rb_tree v \<and> inodes v' = inodes v \<and>
     files_handle_dev v' = files_handle_dev v \<and> takes v' = takes v \<and> gives v' = gives v \<and>
     (\<exists>ms. mallocs v = ms @ mallocs v') \<and>
     (\<forall>a. f_node (files v' a) = f_node (files v a) \<and> f_fd (files v' a) = f_fd (files v a))"

lemma vfs_keep_refl [simp]: "vfs_keep v v"
  by (simp add: vfs_keep_def)

lemma heap_fresh_suffix:
  assumes "heap_fresh v" and "mallocs v = ms @ mallocs v'" and "set (open_files v') \<subseteq> set (open_files v)" and "set (registered v') \<subseteq> set (registered v)"
  shows "heap_fresh v'"
  using assms by (auto simp: heap_fresh_def)

lemma vfs_keep_tables:
  assumes "vfs_keep v v'"
  shows "open_files v' = open_files v" "registered v' = registered v" "inode_ok v' \<longleftrightarrow> inode_ok v" "file_ok v' \<longleftrightarrow> file_ok v"
proof -
  have k: "file_key (files v') = file_key (files v)" using assms by (auto simp: vfs_keep_def file_key_def)
  show o: "open_files v' = open_files v" and r: "registered v' = registered v"
    using assms by (auto simp: vfs_keep_def open_files_def registered_def)
  show "inode_ok v' \<longleftrightarrow> inode_ok v" using assms r by (simp add: inode_ok_def vfs_keep_def)
  have "table_ok fh (files v') \<longleftrightarrow> table_ok fh (files v)" for fh
    using assms k by (simp add: table_ok_def vfs_keep_def)
  moreover have "users v' n = users v n" for n using assms o by (simp add: users_def vfs_keep_def)
  ultimately show "file_ok v' \<longleftrightarrow> file_ok v" using assms o by (simp add: file_ok_def vfs_keep_def)
qed

lemma vfs_keep_inv: "vfs_inv v \<Longrightarrow> vfs_keep v v' \<Longrightarrow> vfs_inv v'"
  using vfs_keep_tables [of v v'] heap_fresh_suffix [of v _ v'] by (auto simp: vfs_inv_def) (auto simp: vfs_keep_def)

text \<open>The semaphore calls and the fields no table depends on.\<close>

lemma script_inv [simp]:
  "vfs_inv (v\<lparr>takes := ts\<rparr>) \<longleftrightarrow> vfs_inv v" "vfs_inv (v\<lparr>gives := ts\<rparr>) \<longleftrightarrow> vfs_inv v" "vfs_inv (v\<lparr>g_vfs_mutex := m\<rparr>) \<longleftrightarrow> vfs_inv v"
  "open_files (v\<lparr>takes := ts\<rparr>) = open_files v" "open_files (v\<lparr>gives := ts\<rparr>) = open_files v" "open_files (v\<lparr>g_vfs_mutex := m\<rparr>) = open_files v"
  "registered (v\<lparr>takes := ts\<rparr>) = registered v" "registered (v\<lparr>gives := ts\<rparr>) = registered v" "registered (v\<lparr>g_vfs_mutex := m\<rparr>) = registered v"
  by (simp_all add: vfs_inv_def file_ok_def inode_ok_def heap_fresh_def users_def open_files_def registered_def)

lemma xSemaphoreTake_cases:
  assumes "xSemaphoreTake v = Some (ok, v')"
  obtains ts where "v' = v\<lparr>takes := ts\<rparr>" | ts m where "v' = v\<lparr>takes := ts, g_vfs_mutex := m\<rparr>"
  using assms unfolding xSemaphoreTake_def by (auto split: list.split_asm bool.split_asm option.split_asm)

lemma xSemaphoreTake_inv:
  assumes "xSemaphoreTake v = Some (ok, v')"
  shows "vfs_inv v' \<longleftrightarrow> vfs_inv v" "open_files v' = open_files v" "files v' = files v" "registered v' = registered v"
    "inodes v' = inodes v" "gives v' = gives v" "inode_open v' p = inode_open v p"
  by (rule xSemaphoreTake_cases [OF assms]; simp add: inode_open_def)+

lemma xSemaphoreGive_inv [simp]: "vfs_inv (snd (xSemaphoreGive v)) \<longleftrightarrow> vfs_inv v"
  "open_files (snd (xSemaphoreGive v)) = open_files v" "files (snd (xSemaphoreGive v)) = files v" "registered (snd (xSemaphoreGive v)) = registered v"
  by (simp_all add: xSemaphoreGive_def split: list.split bool.split)

lemma xSemaphoreGive_pair: "xSemaphoreGive v = (b, v') \<Longrightarrow> vfs_inv v' \<longleftrightarrow> vfs_inv v"
  by (metis snd_conv xSemaphoreGive_inv(1))

lemma dirs_inv [simp]: "vfs_inv (v\<lparr>dirs := d\<rparr>) \<longleftrightarrow> vfs_inv v"
  by (auto simp: vfs_inv_def file_ok_def inode_ok_def heap_fresh_def users_def open_files_def registered_def)

lemma flags_inv: "vfs_inv (v\<lparr>inodes := (inodes v)(n := (inodes v n)\<lparr>i_flags := fl\<rparr>)\<rparr>) \<longleftrightarrow> vfs_inv v"
proof -
  let ?st = "(inodes v)(n := (inodes v n)\<lparr>i_flags := fl\<rparr>)"
  have k: "inode_key ?st = inode_key (inodes v)" by (rule ext) (simp add: inode_key_def name_of_def)
  have "names_apart ?st A \<longleftrightarrow> names_apart (inodes v) A" for A
    by (auto simp: names_apart_def k is_fs_def)
  then show ?thesis
    by (auto simp: vfs_inv_def file_ok_def inode_ok_def heap_fresh_def users_def open_files_def registered_def k)
qed

lemma inode_open_in: "inode_open v p = Some n \<Longrightarrow> n \<in> set (registered v)"
proof -
  have "rb_find_loop cmp m t = Some n \<Longrightarrow> n \<in> set (inorder t)" for cmp and m :: addr and t
    by (induction t) (auto simp: Let_def split: if_splits)
  then show "inode_open v p = Some n \<Longrightarrow> n \<in> set (registered v)"
    by (auto simp: inode_open_def rb_tree_find_def registered_def rbt_seq_def split: option.splits)
qed

section \<open>Descriptors\<close>

lemma fd_clear_set: "length bm = 2 \<Longrightarrow> i < 64 \<Longrightarrow> \<not> fd_bit bm i \<Longrightarrow> fd_clear (fd_set bm i) i = bm"
proof -
  assume a: "length bm = 2" "i < 64" "\<not> fd_bit bm i"
  have "(w OR push_bit k 1) AND NOT (push_bit k 1) = w" if "\<not> bit w k" for w :: u32 and k
    using that by (intro bit_eqI) (auto simp: bit_simps)
  then show ?thesis using a by (simp add: fd_clear_def fd_set_def fd_bit_iff)
qed

lemma vfs_rest_registered: "vfs_rest v v' \<Longrightarrow> registered v' = registered v"
  by (simp add: vfs_rest_def registered_def)

lemma vfs_rest_inode_ok:
  assumes "vfs_rest v v'"
  shows "inode_ok v' \<longleftrightarrow> inode_ok v"
proof -
  have eq: "(inodes v' n)\<lparr>i_refs := 0\<rparr> = (inodes v n)\<lparr>i_refs := 0\<rparr>" for n using assms by (simp add: vfs_rest_def)
  have f: "i_name (inodes v' n) = i_name (inodes v n)" "i_type (inodes v' n) = i_type (inodes v n)" for n
    using arg_cong [OF eq, of i_name n] arg_cong [OF eq, of i_type n] by simp_all
  have "inode_key (inodes v') = inode_key (inodes v)" by (rule ext) (simp add: inode_key_def name_of_def f)
  moreover have "is_fs (inodes v' n) = is_fs (inodes v n)" for n by (simp add: is_fs_def f)
  ultimately show ?thesis using assms f vfs_rest_registered [OF assms] by (simp add: inode_ok_def names_apart_def vfs_rest_def)
qed

text \<open>The second allocation fails: the descriptor is given back.\<close>

lemma new_file_nomem:
  assumes "file_ok v" and "length (open_files v) < 60" and "mallocs v = Some f # ms" and "ms = [] \<or> hd ms = NULL"
  shows "\<exists>v'. new_file v n = Some (NULL, v') \<and> files_handle_dev v' = files_handle_dev v \<and> vfs_rest v v' \<and> inodes v' = inodes v \<and>
    mallocs v' = tl ms \<and> (\<forall>a. a \<noteq> f \<longrightarrow> files v' a = files v a)"
proof -
  obtain fh t where fh: "files_handle_dev v = Some fh" "file_rb_tree fh = Some t" "length (fd_bitmap fh) = 2"
    by (rule file_ok_elim [OF assms(1)]) blast
  obtain fd where fd: "fd_scan (fd_bitmap fh) 0 MAX_FILE_NUM = Some fd" "fd < 60" using free_fd_iff(2) [OF assms(1) fh(1) assms(2)] by blast
  then have "\<not> fd_bit (fd_bitmap fh) fd" by (simp add: fd_scan_Some)
  then have "fd_clear (fd_set (fd_bitmap fh) fd) fd = fd_bitmap fh" using fh(3) fd(2) by (intro fd_clear_set) auto
  then show ?thesis using fh fd free_fd_iff(1) [OF assms(1) fh(1)] assms(2-4)
    by (cases ms) (simp_all add: new_file_def pvPortMalloc_def Let_def rb_tree_insert_def vfs_rest_def)
qed

lemma vfs_inv_files:
  assumes "vfs_inv v" and "files_handle_dev v' = files_handle_dev v" and "vfs_rest v v'" and "inodes v' = inodes v"
    and "mallocs v = ms @ mallocs v'" and "\<And>a. a \<in> set (open_files v) \<Longrightarrow> files v' a = files v a"
  shows "vfs_inv v'"
proof -
  have o: "open_files v' = open_files v" using assms(2) by (simp add: open_files_def)
  obtain fh t where fh: "files_handle_dev v = Some fh" "file_rb_tree fh = Some t" "open_files v = rbt_seq t" "table_ok fh (files v)"
    using assms(1) by (auto simp: vfs_inv_def file_ok_def open_files_def table_ok_def)
  have k: "file_key (files v') a = file_key (files v) a" if "a \<in> set (rbt_seq t)" for a using assms(6) that fh(3) by (simp add: file_key_def)
  have "file_key (files v') ` set (rbt_seq t) = file_key (files v) ` set (rbt_seq t)" using k by (intro image_cong) auto
  then have "table_ok fh (files v')"
    using fh(2,4) k key_sorted_cong [of "file_key (files v)" "rbt_seq t" "file_key (files v')"] by (auto simp: table_ok_def file_key_def)
  moreover have "users v' n = users v n" for n using assms(6) o by (auto simp: users_def)
  moreover have "heap_fresh v'" using heap_fresh_suffix [of v ms v'] assms(1,5) o vfs_rest_registered [OF assms(3)] by (simp add: vfs_inv_def)
  ultimately show ?thesis using assms(1,2,4,6) fh(1) o vfs_rest_registered [OF assms(3)] vfs_rest_inode_ok [OF assms(3)]
    by (simp add: vfs_inv_def file_ok_def)
qed

lemma new_file_malloc:
  assumes "file_ok v" and "length (open_files v) < 60" and "new_file v n = Some (p, v')"
  obtains f ms where "mallocs v = Some f # ms"
proof -
  obtain fh fd where fh: "files_handle_dev v = Some fh" "fd_scan (fd_bitmap fh) 0 MAX_FILE_NUM = Some fd"
    "\<not> word_of_nat MAX_FILE_NUM \<le> rb_tree_size (file_rb_tree fh)"
    using assms(1,2) free_fd_iff [OF assms(1)] by (auto simp: file_ok_def)
  then show thesis
    using assms(3) that by (cases "mallocs v"; cases "hd (mallocs v)") (auto simp: new_file_def pvPortMalloc_def Let_def)
qed

lemma new_file_inv:
  assumes "vfs_inv v" and "new_file v n = Some (p, v')" and "n \<in> set (registered v)"
  shows "vfs_inv v' \<and> registered v' = registered v \<and> (\<forall>f. p = Some f \<longrightarrow> f \<in> set (open_files v') \<and> f_node (files v' f) = Some n)"
proof -
  have ok: "file_ok v" "heap_fresh v" using assms(1) by (auto simp: vfs_inv_def)
  consider "length (open_files v) = 60" | "length (open_files v) < 60" using open_files_count(2) [OF ok(1)] by linarith
  then show ?thesis
  proof cases
    case 1
    then show ?thesis using new_file_full [OF ok(1)] assms by simp
  next
    case 2
    obtain f ms where m: "mallocs v = Some f # ms" by (rule new_file_malloc [OF ok(1) 2 assms(2)])
    have f: "f \<noteq> 0" "f \<notin> set (open_files v)" "f \<notin> set (registered v)" "Some f \<notin> set ms" using ok(2) m by (auto simp: heap_fresh_def)
    show ?thesis
    proof (cases "ms = [] \<or> hd ms = NULL")
      case True
      from new_file_nomem [OF ok(1) 2 m True, of n] assms(2) have v': "p = NULL" "files_handle_dev v' = files_handle_dev v"
        "vfs_rest v v'" "inodes v' = inodes v" "mallocs v' = tl ms" "\<And>a. a \<noteq> f \<Longrightarrow> files v' a = files v a" by auto
      have "mallocs v = (Some f # take 1 ms) @ mallocs v'" using m v'(5) by (cases ms) auto
      then have "vfs_inv v'" using v' f by (intro vfs_inv_files [OF assms(1) v'(2-4), of "Some f # take 1 ms"]) metis+
      then show ?thesis using v'(1) vfs_rest_registered [OF v'(3)] by simp
    next
      case False
      then obtain m' ms' where "ms = Some m' # ms'" by (cases ms) auto
      then have m2: "mallocs v = Some f # Some m' # ms'" using m by simp
      from new_file_ok [OF ok(1) 2 m2, of n] f assms(2) obtain fd where v': "p = Some f" "file_ok v'"
        "set (open_files v') = insert f (set (open_files v))" "files v' = (files v)(f := \<lparr>f_node = Some n, f_arg = NULL, f_offset = 0, f_fd = int fd + 2\<rparr>)"
        "vfs_rest v v'" "mallocs v' = ms'" by auto
      have "heap_fresh v'" using ok(2) m2 f v'(3,6) vfs_rest_registered [OF v'(5)] by (auto simp: heap_fresh_def)
      then have "vfs_inv v'" using assms(1,3) v' vfs_rest_registered [OF v'(5)] vfs_rest_inode_ok [OF v'(5)] f
        by (auto simp: vfs_inv_def)
      then show ?thesis using v' vfs_rest_registered [OF v'(5)] by auto
    qed
  qed
qed

lemma del_file_inv:
  assumes "vfs_inv v" and "del_file v f = Some v'" and "f \<in> set (open_files v)"
  shows "vfs_inv v' \<and> registered v' = registered v"
proof -
  obtain n where d: "file_ok v'" "set (open_files v') = set (open_files v) - {f}" "vfs_rest v v'" "mallocs v' = mallocs v"
    "files v' = (files v)(f := (files v f)\<lparr>f_node := NULL\<rparr>)"
    using del_file_ok [of v f] assms by (auto simp: vfs_inv_def)
  moreover have "heap_fresh v'"
    using heap_fresh_suffix [of v "[]" v'] assms(1) d vfs_rest_registered [OF d(3)] by (auto simp: vfs_inv_def)
  ultimately show ?thesis using assms(1) vfs_rest_inode_ok [OF d(3)] vfs_rest_registered [OF d(3)] by (auto simp: vfs_inv_def)
qed

section \<open>The contract of drivers and file systems\<close>

definition op_keeps :: "('d vfs \<Rightarrow> ('r \<times> 'd vfs) option) option \<Rightarrow> bool" where
  "op_keeps g \<longleftrightarrow> (\<forall>h v r v'. g = Some h \<longrightarrow> h v = Some (r, v') \<longrightarrow> vfs_keep v v')"

locale vfs_driver =
  fixes tb :: "'d tables"
  assumes file_ops_keep:
    "op_keeps (map_option (\<lambda>g. g node f) (fo_open (file_tables tb a)))"
    "op_keeps (map_option (\<lambda>g. g f) (fo_close (file_tables tb a)))"
    "op_keeps (map_option (\<lambda>g. g f buf n) (fo_read (file_tables tb a)))"
    "op_keeps (map_option (\<lambda>g. g f buf n) (fo_write (file_tables tb a)))"
    "op_keeps (map_option (\<lambda>g. g f cmd arg) (fo_ioctl (file_tables tb a)))"
    "op_keeps (map_option (\<lambda>g. g f) (fo_sync (file_tables tb a)))"
  and fs_file_ops_keep:
    "op_keeps (map_option (\<lambda>g. g f path flags) (fs_open (fs_tables tb a)))"
    "op_keeps (map_option (\<lambda>g. g f) (fs_close (fs_tables tb a)))"
    "op_keeps (map_option (\<lambda>g. g f buf n) (fs_read (fs_tables tb a)))"
    "op_keeps (map_option (\<lambda>g. g f buf n) (fs_write (fs_tables tb a)))"
    "op_keeps (map_option (\<lambda>g. g f cmd arg) (fs_ioctl (fs_tables tb a)))"
    "op_keeps (map_option (\<lambda>g. g f off whence) (fs_lseek (fs_tables tb a)))"
    "op_keeps (map_option (\<lambda>g. g f) (fs_sync (fs_tables tb a)))"
  and fs_path_ops_keep:
    "op_keeps (map_option (\<lambda>g. g f path st) (fs_stat (fs_tables tb a)))"
    "op_keeps (map_option (\<lambda>g. g f path) (fs_unlink (fs_tables tb a)))"
    "op_keeps (map_option (\<lambda>g. g f path path2) (fs_rename (fs_tables tb a)))"
    "op_keeps (map_option (\<lambda>g. g f path) (fs_mkdir (fs_tables tb a)))"
    "op_keeps (map_option (\<lambda>g. g f path) (fs_rmdir (fs_tables tb a)))"
    "op_keeps (map_option (\<lambda>g. g f path amode) (fs_access (fs_tables tb a)))"
    "op_keeps (map_option (\<lambda>g. g f path buf) (fs_statfs (fs_tables tb a)))"
  and fs_dir_ops_keep:
    "op_keeps (map_option (\<lambda>g. g f path) (fs_opendir (fs_tables tb a)))"
    "op_keeps (map_option (\<lambda>g. g f d) (fs_readdir (fs_tables tb a)))"
    "op_keeps (map_option (\<lambda>g. g f d) (fs_closedir (fs_tables tb a)))"
    "op_keeps (map_option (\<lambda>g. g f d) (fs_telldir (fs_tables tb a)))"
    "op_keeps (map_option (\<lambda>g v. map_option (Pair ()) (g f d v)) (fs_rewinddir (fs_tables tb a)))"
    "op_keeps (map_option (\<lambda>g v. map_option (Pair ()) (g f d loc v)) (fs_seekdir (fs_tables tb a)))"

lemma dispatch_keep:
  assumes "dispatch tb v node fsop fop dflt = Some (r, v')" and "\<And>a. op_keeps (fsop (fs_tables tb a))" and "\<And>a. op_keeps (fop (file_tables tb a))"
  shows "vfs_keep v v'"
proof -
  obtain a where "(case (if INODE_IS_FS v node then fsop (fs_tables tb a) else fop (file_tables tb a)) of None \<Rightarrow> Some (dflt, v) | Some g \<Rightarrow> g v) = Some (r, v')"
    using assms(1) by (auto simp: dispatch_def Let_def split: Option.bind_splits)
  then show ?thesis using assms(2,3) [of a] by (auto simp: op_keeps_def split: option.splits if_splits)
qed

lemma dispatch_fs_keep:
  assumes "dispatch_fs tb v node fsop dflt = Some (r, v')" and "\<And>a. op_keeps (fsop (fs_tables tb a))"
  shows "vfs_keep v v'"
  using assms by (auto simp: dispatch_fs_def op_keeps_def split: if_splits option.splits Option.bind_splits)

text \<open>The parts the calls are made of.\<close>

lemma get_file_open:
  assumes "vfs_inv v" and "get_file v fd = Some (Some f)"
  shows "f \<in> set (open_files v)"
proof -
  have "0 \<le> fd" using assms(2) by (auto simp: get_file_def split: if_splits)
  then show ?thesis using get_file_iff [of v fd] assms by (auto simp: vfs_inv_def)
qed

lemma release_file_inv:
  assumes "vfs_inv v" and "f \<in> set (open_files v)"
    and "(do { (ret, v) \<leftarrow> m; (ok, v) \<leftarrow> xSemaphoreTake v;
      if P ok then Some (e, v) else do { v \<leftarrow> del_file v f; Some (G ret, snd (xSemaphoreGive v)) } }) = Some (r, v')"
    and "\<And>ret v1. m = Some (ret, v1) \<Longrightarrow> vfs_keep v v1"
  shows "vfs_inv v'"
proof -
  obtain ret v1 ok v2 where m: "m = Some (ret, v1)" "xSemaphoreTake v1 = Some (ok, v2)"
    "(if P ok then Some (e, v2) else do { v \<leftarrow> del_file v2 f; Some (G ret, snd (xSemaphoreGive v)) }) = Some (r, v')"
    using assms(3) by (auto split: Option.bind_split_asm)
  note k = assms(4) [OF m(1)]
  have "vfs_inv v2" "f \<in> set (open_files v2)"
    using vfs_keep_inv [OF assms(1) k] xSemaphoreTake_inv [OF m(2)] vfs_keep_tables(1) [OF k] assms(2) by auto
  then show ?thesis using m(3) del_file_inv [of v2 f] by (auto split: if_splits Option.bind_splits)
qed

lemma on_fd_inv:
  assumes "vfs_inv v" and "on_fd v fd body = Some (r, v')" and "\<And>f n. body f n = Some (r, v') \<Longrightarrow> vfs_keep v v'"
  shows "vfs_inv v'"
  using assms vfs_keep_inv [OF assms(1)] by (auto simp: on_fd_def split: option.splits Option.bind_splits)

lemma with_file_inv:
  assumes "vfs_inv v" and "node \<in> set (registered v)"
    and "(do { (q, v) \<leftarrow> new_file v node; let v = snd (xSemaphoreGive v); case q of None \<Rightarrow> Some (e, v) | Some f \<Rightarrow> K f v }) = Some (r, v')"
    and "\<And>f v. vfs_inv v \<Longrightarrow> f \<in> set (open_files v) \<Longrightarrow> K f v = Some (r, v') \<Longrightarrow> vfs_inv v'"
  shows "vfs_inv v'"
proof -
  obtain q v1 where nf: "new_file v node = Some (q, v1)" using assms(3) by (auto split: Option.bind_splits)
  note i = new_file_inv [OF assms(1) nf assms(2)]
  show ?thesis using assms(3) nf i by (cases q) (auto intro: assms(4) [of "snd (xSemaphoreGive v1)"])
qed

lemma on_path_inv:
  assumes "vfs_inv v" and "on_path err v path body = Some (r, v')" and k: "\<And>f n p v r v'. body f n p v = Some (r, v') \<Longrightarrow> vfs_keep v v'"
  shows "vfs_inv v'"
proof (cases path)
  case None
  then show ?thesis using assms by (auto simp: on_path_def)
next
  case (Some p)
  obtain ok v1 where t: "xSemaphoreTake v = Some (ok, v1)" using assms(2) Some by (auto simp: on_path_def split: Option.bind_splits)
  have i1: "vfs_inv v1" using xSemaphoreTake_inv(1) [OF t] assms(1) by simp
  show ?thesis
  proof (cases "ok \<and> inode_open v1 p \<noteq> None")
    case False
    then show ?thesis using assms(2) Some t i1 by (auto simp: on_path_def split: if_splits)
  next
    case True
    then obtain node where n: "ok" "inode_open v1 p = Some node" by blast
    have "(do { (q, v) \<leftarrow> new_file v1 node; let v = snd (xSemaphoreGive v); case q of None \<Rightarrow> Some (- ENOENT, v) | Some f \<Rightarrow>
        do { (ret, v) \<leftarrow> body f node p v; (ok, v) \<leftarrow> xSemaphoreTake v;
             if \<not> ok then Some (err, v) else do { v \<leftarrow> del_file v f; Some (ret, snd (xSemaphoreGive v)) } } }) = Some (r, v')"
      using assms(2) Some t n by (simp add: on_path_def)
    then show ?thesis
      by (rule with_file_inv [OF i1 inode_open_in [OF n(2)]]) (erule (2) release_file_inv, rule k)
  qed
qed

lemma on_dir_inv:
  assumes "vfs_inv v" and "on_dir none absent dflt tb v dir op = Some (r, v')" and "\<And>f d a. op_keeps (map_option (\<lambda>g. g f d) (op (fs_tables tb a)))"
  shows "vfs_inv v'"
proof -
  have "vfs_keep v v'" if "dispatch_fs tb v n (\<lambda>tab. map_option (\<lambda>g. g f d) (op tab)) dflt = Some (r, v')" for n f d
    using that assms(3) by (rule dispatch_fs_keep)
  then show ?thesis using assms(1,2) vfs_keep_inv [OF assms(1)] by (auto simp: on_dir_def split: option.splits Option.bind_splits)
qed

section \<open>Every call keeps the invariant\<close>

context vfs_driver
begin

lemma open_inv:
  assumes "vfs_inv v" and "aos_open tb v path flags = Some (r, v')"
  shows "vfs_inv v'"
proof (cases "path = None \<or> length (the path) > PATH_MAX")
  case True
  then show ?thesis using assms by (cases path) (auto simp: aos_open_def)
next
  case False
  then obtain p where p: "path = Some p" "\<not> length p > PATH_MAX" by auto
  obtain ok v1 where t: "xSemaphoreTake v = Some (ok, v1)" using assms(2) p by (auto simp: aos_open_def split: Option.bind_splits)
  have i1: "vfs_inv v1" using xSemaphoreTake_inv(1) [OF t] assms(1) by simp
  show ?thesis
  proof (cases "ok \<and> inode_open v1 p \<noteq> None")
    case False
    then show ?thesis using assms(2) p t i1 by (auto simp: aos_open_def split: if_splits)
  next
    case True
    then obtain node where n: "ok" "inode_open v1 p = Some node" by blast
    define v2 where "v2 = v1\<lparr>inodes := (inodes v1)(node := (inodes v1 node)\<lparr>i_flags := flags\<rparr>)\<rparr>"
    have i2: "vfs_inv v2" "node \<in> set (registered v2)" using i1 flags_inv inode_open_in [OF n(2)] by (auto simp: v2_def registered_def)
    have "(do { (q, v) \<leftarrow> new_file v2 node; let v = snd (xSemaphoreGive v); case q of None \<Rightarrow> Some (- ENFILE, v) | Some f \<Rightarrow>
        do { (ret, v) \<leftarrow> dispatch tb v node (\<lambda>tab. map_option (\<lambda>g. g f p flags) (fs_open tab)) (\<lambda>tab. map_option (\<lambda>g. g node f) (fo_open tab)) VFS_SUCCESS;
             if ret \<noteq> VFS_SUCCESS then do { v \<leftarrow> del_file v f; Some (ret, v) } else Some (get_fd v f, v) } }) = Some (r, v')"
      using assms(2) p t n by (simp add: aos_open_def v2_def)
    then show ?thesis
    proof (rule with_file_inv [OF i2])
      fix f and v :: "'d vfs"
      assume v: "vfs_inv v" "f \<in> set (open_files v)"
        and "(do { (ret, v) \<leftarrow> dispatch tb v node (\<lambda>tab. map_option (\<lambda>g. g f p flags) (fs_open tab)) (\<lambda>tab. map_option (\<lambda>g. g node f) (fo_open tab)) VFS_SUCCESS;
             if ret \<noteq> VFS_SUCCESS then do { v \<leftarrow> del_file v f; Some (ret, v) } else Some (get_fd v f, v) }) = Some (r, v')"
      then obtain r1 v4 where d: "dispatch tb v node (\<lambda>tab. map_option (\<lambda>g. g f p flags) (fs_open tab)) (\<lambda>tab. map_option (\<lambda>g. g node f) (fo_open tab)) VFS_SUCCESS = Some (r1, v4)"
        "(if r1 \<noteq> VFS_SUCCESS then do { v \<leftarrow> del_file v4 f; Some (r1, v) } else Some (get_fd v4 f, v4)) = Some (r, v')"
        by (auto split: Option.bind_splits)
      have k: "vfs_keep v v4" using d(1) fs_file_ops_keep(1) file_ops_keep(1) by (rule dispatch_keep)
      then show "vfs_inv v'" using d(2) del_file_inv [of v4 f] vfs_keep_inv [OF v(1) k] vfs_keep_tables(1) [OF k] v(2)
        by (auto split: if_splits Option.bind_splits)
    qed
  qed
qed

lemma close_inv:
  assumes "vfs_inv v" and "aos_close tb v fd = Some (r, v')"
  shows "vfs_inv v'"
proof (cases "get_file v fd = Some NULL")
  case True
  then show ?thesis using assms by (simp add: aos_close_def)
next
  case False
  then obtain f node where c: "get_file v fd = Some (Some f)"
    "(do { (ret, v) \<leftarrow> dispatch tb v node (\<lambda>tab. map_option (\<lambda>g. g f) (fs_close tab)) (\<lambda>tab. map_option (\<lambda>g. g f) (fo_close tab)) VFS_SUCCESS;
       (ok, v) \<leftarrow> xSemaphoreTake v; if \<not> ok then Some (-1, v) else do { v \<leftarrow> del_file v f; Some (ret, snd (xSemaphoreGive v)) } }) = Some (r, v')"
    using assms(2) by (auto simp: aos_close_def split: option.split_asm Option.bind_split_asm)
  show ?thesis
    by (rule release_file_inv [OF assms(1) get_file_open [OF assms(1) c(1)] c(2)])
      (erule dispatch_keep, rule fs_file_ops_keep, rule file_ops_keep)
qed

lemma fd_calls_inv:
  assumes "vfs_inv v"
  shows "aos_read tb v fd buf n = Some (r, v') \<Longrightarrow> vfs_inv v'" "aos_write tb v fd buf n = Some (r, v') \<Longrightarrow> vfs_inv v'"
    "aos_ioctl tb v fd cmd arg = Some (r, v') \<Longrightarrow> vfs_inv v'" "aos_lseek tb v fd off whence = Some (r, v') \<Longrightarrow> vfs_inv v'"
    "aos_sync tb v fd = Some (r, v') \<Longrightarrow> vfs_inv v'"
  using assms
  unfolding aos_read_def aos_write_def aos_ioctl_def aos_lseek_def aos_sync_def
  by (auto split: if_splits elim!: on_fd_inv [rotated] dispatch_keep dispatch_fs_keep intro: file_ops_keep fs_file_ops_keep)

lemma path_calls_inv:
  assumes "vfs_inv v"
  shows "aos_stat tb v path st = Some (r, v') \<Longrightarrow> vfs_inv v'" "aos_unlink tb v path = Some (r, v') \<Longrightarrow> vfs_inv v'"
    "aos_rename tb v path path2 = Some (r, v') \<Longrightarrow> vfs_inv v'" "aos_mkdir tb v path = Some (r, v') \<Longrightarrow> vfs_inv v'"
    "aos_rmdir tb v path = Some (r, v') \<Longrightarrow> vfs_inv v'" "aos_access tb v path amode = Some (r, v') \<Longrightarrow> vfs_inv v'"
  using assms
  unfolding aos_stat_def aos_unlink_def aos_rename_def aos_mkdir_def aos_rmdir_def aos_access_def
  by (auto split: option.splits elim!: on_path_inv [rotated] dispatch_fs_keep intro: fs_path_ops_keep)

lemma dir_calls_inv:
  assumes "vfs_inv v"
  shows "aos_readdir tb v dir = Some (p, v') \<Longrightarrow> vfs_inv v'" "aos_rewinddir tb v dir = Some (u, v') \<Longrightarrow> vfs_inv v'"
    "aos_telldir tb v dir = Some (r, v') \<Longrightarrow> vfs_inv v'" "aos_seekdir tb v dir loc = Some (u, v') \<Longrightarrow> vfs_inv v'"
  using assms
  unfolding aos_readdir_def aos_rewinddir_def aos_telldir_def aos_seekdir_def
  by (auto elim!: on_dir_inv [rotated] intro: fs_dir_ops_keep simp: option.map_comp comp_def)

lemma statfs_inv:
  assumes "vfs_inv v" and "aos_statfs tb v path buf = Some (r, v')"
  shows "vfs_inv v'"
proof (cases path)
  case None
  then show ?thesis using assms by (simp add: aos_statfs_def)
next
  case (Some p)
  obtain ok v1 where t: "xSemaphoreTake v = Some (ok, v1)" using assms(2) Some by (auto simp: aos_statfs_def split: Option.bind_splits)
  have i1: "vfs_inv v1" using xSemaphoreTake_inv(1) [OF t] assms(1) by simp
  show ?thesis
  proof (cases "\<not> ok \<and> inode_open v1 p \<noteq> None")
    case False
    then show ?thesis using assms(2) Some t i1 by (auto simp: aos_statfs_def split: if_splits)
  next
    case True
    then obtain node where n: "\<not> ok" "inode_open v1 p = Some node" by blast
    have "(do { (q, v) \<leftarrow> new_file v1 node; let v = snd (xSemaphoreGive v); case q of None \<Rightarrow> Some (- ENOENT, v) | Some f \<Rightarrow>
        do { (ret, v) \<leftarrow> dispatch_fs tb v node (\<lambda>tab. map_option (\<lambda>g. g f p buf) (fs_statfs tab)) (- ENOSYS); (ok, v) \<leftarrow> xSemaphoreTake v;
             if ok then Some (1, v) else do { v \<leftarrow> del_file v f; Some (ret, snd (xSemaphoreGive v)) } } }) = Some (r, v')"
      using assms(2) Some t n by (simp add: aos_statfs_def)
    then show ?thesis
      by (rule with_file_inv [OF i1 inode_open_in [OF n(2)]])
        (erule (2) release_file_inv, erule dispatch_fs_keep, rule fs_path_ops_keep)
  qed
qed

lemma opendir_inv:
  assumes "vfs_inv v" and "aos_opendir tb v path = Some (r, v')"
  shows "vfs_inv v'"
proof (cases path)
  case None
  then show ?thesis using assms by (simp add: aos_opendir_def)
next
  case (Some p)
  obtain ok v1 where t: "xSemaphoreTake v = Some (ok, v1)" using assms(2) Some by (auto simp: aos_opendir_def split: Option.bind_splits)
  have i1: "vfs_inv v1" using xSemaphoreTake_inv(1) [OF t] assms(1) by simp
  show ?thesis
  proof (cases "ok \<and> inode_open v1 p \<noteq> None")
    case False
    then show ?thesis using assms(2) Some t i1 by (auto simp: aos_opendir_def split: if_splits)
  next
    case True
    then obtain node where n: "ok" "inode_open v1 p = Some node" by blast
    define K where "K f v = (do { (dp, v) \<leftarrow> dispatch_fs tb v node (\<lambda>tab. map_option (\<lambda>g. g f p) (fs_opendir tab)) NULL;
        case dp of
          None \<Rightarrow> do { (ok, v) \<leftarrow> xSemaphoreTake v; if \<not> ok then Some (NULL, v) else do { v \<leftarrow> del_file v f; Some (NULL, snd (xSemaphoreGive v)) } }
        | Some d \<Rightarrow> Some (dp, v\<lparr>dirs := (dirs v)(d := get_fd v f)\<rparr>) })" for f v
    have "(do { (q, v) \<leftarrow> new_file v1 node; let v = snd (xSemaphoreGive v); case q of None \<Rightarrow> Some (NULL, v) | Some f \<Rightarrow> K f v }) = Some (r, v')"
      using assms(2) Some t n unfolding K_def by (simp add: aos_opendir_def)
    then show ?thesis
    proof (rule with_file_inv [OF i1 inode_open_in [OF n(2)]])
      fix f and v :: "'d vfs"
      assume v: "vfs_inv v" "f \<in> set (open_files v)" and K: "K f v = Some (r, v')"
      then obtain dp v2 where d: "dispatch_fs tb v node (\<lambda>tab. map_option (\<lambda>g. g f p) (fs_opendir tab)) NULL = Some (dp, v2)"
        by (auto simp: K_def split: Option.bind_splits)
      then have k: "vfs_keep v v2" using fs_dir_ops_keep(1) by (rule dispatch_fs_keep)
      show "vfs_inv v'"
      proof (cases dp)
        case None
        with K d have "(do { (dp, v) \<leftarrow> Some (dp, v2); (ok, v) \<leftarrow> xSemaphoreTake v;
            if \<not> ok then Some (NULL, v) else do { v \<leftarrow> del_file v f; Some (NULL, snd (xSemaphoreGive v)) } }) = Some (r, v')" by (simp add: K_def)
        then show ?thesis by (rule release_file_inv [OF v]) (use k in simp)
      next
        case (Some x)
        then show ?thesis using K d vfs_keep_inv [OF v(1) k] by (auto simp: K_def)
      qed
    qed
  qed
qed

lemma closedir_inv:
  assumes "vfs_inv v" and "aos_closedir tb v dir = Some (r, v')"
  shows "vfs_inv v'"
proof (cases "dir = NULL \<or> get_file v (dirs v (the dir)) = Some NULL")
  case True
  then show ?thesis using assms by (cases dir) (auto simp: aos_closedir_def)
next
  case False
  then obtain d f node where c: "dir = Some d" "get_file v (dirs v d) = Some (Some f)"
    "(do { (ret, v) \<leftarrow> dispatch_fs tb v node (\<lambda>tab. map_option (\<lambda>g. g f d) (fs_closedir tab)) (- ENOSYS);
       (ok, v) \<leftarrow> xSemaphoreTake v; if \<not> ok then Some (-1, v) else do { v \<leftarrow> del_file v f; Some (ret, snd (xSemaphoreGive v)) } }) = Some (r, v')"
    using assms(2) by (auto simp: aos_closedir_def split: option.split_asm Option.bind_split_asm)
  show ?thesis
    by (rule release_file_inv [OF assms(1) get_file_open [OF assms(1) c(2)] c(3)]) (erule dispatch_fs_keep, rule fs_dir_ops_keep)
qed

end

section \<open>Registration keeps the invariant\<close>

lemma no_users: "vfs_inv v \<Longrightarrow> a \<notin> set (registered v) \<Longrightarrow> users v a = {}"
  by (force simp: vfs_inv_def users_def)

lemma file_ok_inodes:
  assumes "vfs_inv v" and "files_handle_dev v' = files_handle_dev v" and "files v' = files v"
    and "\<And>n. n \<noteq> a \<Longrightarrow> i_refs (inodes v' n) = i_refs (inodes v n)" and "i_refs (inodes v' a) = (if a \<in> set (registered v) then i_refs (inodes v a) else 0)"
  shows "file_ok v'"
proof -
  have o: "open_files v' = open_files v" using assms(2) by (simp add: open_files_def)
  then have u: "users v' n = users v n" for n using assms(3) by (simp add: users_def)
  have "unat (i_refs (inodes v' n)) = card (users v' n)" for n
    using assms(1,4,5) no_users [OF assms(1), of a] by (cases "n = a") (auto simp: u vfs_inv_def file_ok_def)
  then show ?thesis using assms(1-3) o by (simp add: vfs_inv_def file_ok_def)
qed

lemma unregistered_inv:
  assumes "vfs_inv v" and "a \<notin> set (registered v)" and "i_refs x = 0" and "mallocs v = ms' @ ms"
  shows "vfs_inv (v\<lparr>inodes := (inodes v)(a := x), mallocs := ms\<rparr>)" (is "vfs_inv ?v")
proof -
  have r: "registered ?v = registered v" "open_files ?v = open_files v" by (simp_all add: registered_def open_files_def)
  obtain t where t: "inode_rb_tree v = Some t" "registered v = rbt_seq t" "rbt_ok t" "length (rbt_seq t) \<le> unat (rb_size t)"
    "unat (rb_size t) \<le> 30" "key_sorted (inode_key (inodes v)) (rbt_seq t)" "names_apart (inodes v) (set (rbt_seq t))"
    "0 \<notin> set (rbt_seq t)" "\<And>a. a \<in> set (rbt_seq t) \<Longrightarrow> i_name (inodes v a) \<noteq> None"
    using assms(1) by (auto simp: vfs_inv_def intro: inode_ok_elim)
  have eq: "((inodes v)(a := x)) n = inodes v n" if "n \<in> set (rbt_seq t)" for n using that assms(2) t(2) by auto
  have "inode_ok ?v"
  proof (rule inode_okI [of _ t])
    show "key_sorted (inode_key (inodes ?v)) (rbt_seq t)" using t(6) by (rule key_sorted_cong) (use eq in \<open>simp add: inode_key_def\<close>)
    show "names_apart (inodes ?v) (set (rbt_seq t))" using t(7) by (rule names_apart_cong) (use eq in simp)
  qed (use t eq in auto)
  moreover have "file_ok ?v" using assms by (intro file_ok_inodes [OF assms(1), of _ a]) auto
  moreover have "heap_fresh ?v" using heap_fresh_suffix [of v ms' ?v] assms(1,4) r by (simp add: vfs_inv_def)
  ultimately show ?thesis using assms(1) r by (simp add: vfs_inv_def)
qed

text \<open>The names a node may be registered under: none that continues a mount point other than below it.\<close>

definition name_fits :: "'d vfs \<Rightarrow> vfs_type \<Rightarrow> string \<Rightarrow> bool" where
  "name_fits v ty p \<longleftrightarrow> nul_free p \<and> (\<forall>n\<in>set (registered v).
     (is_fs (inodes v n) \<and> strict_prefix (inode_key (inodes v) n) p \<longrightarrow> below (inode_key (inodes v) n) p) \<and>
     (ty = VFS_TYPE_FS_DEV \<longrightarrow> \<not> strict_prefix p (inode_key (inodes v) n)))"

lemma inode_reserve_nomem:
  assumes "inode_rb_tree v = Some t" and "rb_size t < 30" and "p \<noteq> []" and "hd p = CHR ''/''"
    and "mallocs v = Some a # Some b # ms" and "ms = [] \<or> hd ms = NULL"
  shows "inode_reserve v (Some p) = Some (- ENOMEM, NULL, v\<lparr>inodes := (inodes v)(a := inode0\<lparr>i_name := Some p\<rparr>), mallocs := tl ms\<rparr>)"
  using assms by (cases ms) (auto simp: inode_reserve_def rb_tree_size_def vfs_consts linorder_not_le inode_alloc_def pvPortMalloc_def
      inode_set_name_def rb_tree_insert_def Let_def)

lemma inode_reserve_mallocs:
  assumes "inode_reserve v (Some p) = Some (r, q, v1)" and "inode_rb_tree v = Some t" and "rb_size t < 30" and "p \<noteq> []" and "hd p = CHR ''/''"
  obtains a b ms where "mallocs v = Some a # Some b # ms"
proof -
  have lt: "\<not> 30 \<le> rb_size t" using assms(3) by simp
  consider "mallocs v = []" | ms where "mallocs v = None # ms" | a where "mallocs v = [Some a]" | a ms where "mallocs v = Some a # None # ms"
    | a b ms where "mallocs v = Some a # Some b # ms"
    by (metis neq_Nil_conv option.exhaust)
  then show thesis
    using assms lt that
    by cases (simp_all add: inode_reserve_def rb_tree_size_def vfs_consts inode_alloc_def pvPortMalloc_def inode_set_name_def Let_def)
qed

lemma inode_reserve_inv:
  assumes "vfs_inv v" and "inode_reserve v (Some p) = Some (r, q, v1)" and "name_fits v ty p"
  shows "vfs_inv v1 \<and> gives v1 = gives v \<and> (\<forall>a. q = Some a \<longrightarrow> a \<notin> set (registered v) \<and> set (registered v1) \<subseteq> insert a (set (registered v)) \<and>
    inodes v1 = (inodes v)(a := inode0\<lparr>i_name := Some p\<rparr>))"
proof -
  have ok: "inode_ok v" "heap_fresh v" using assms(1) by (auto simp: vfs_inv_def)
  obtain t where t: "inode_rb_tree v = Some t" by (rule inode_ok_elim [OF ok(1)]) blast
  show ?thesis
  proof (cases "p = [] \<or> hd p \<noteq> CHR ''/'' \<or> 30 \<le> rb_size t")
    case True
    then have "inode_reserve v (Some p) = Some (- EINVAL, NULL, v)" using t by (auto simp: inode_reserve_def rb_tree_size_def vfs_consts)
    then show ?thesis using assms(1,2) by auto
  next
    case False
    then have g: "p \<noteq> []" "hd p = CHR ''/''" "rb_size t < 30" by auto
    obtain a b ms where m: "mallocs v = Some a # Some b # ms" by (rule inode_reserve_mallocs [OF assms(2) t g(3,1,2)])
    then have a: "a \<noteq> 0" "a \<notin> set (open_files v)" "a \<notin> set (registered v)" "Some a \<notin> set ms" using ok(2) by (auto simp: heap_fresh_def)
    show ?thesis
    proof (cases "ms = [] \<or> hd ms = NULL")
      case True
      have "mallocs v = (Some a # Some b # take 1 ms) @ tl ms" using m by (cases ms) auto
      then have "vfs_inv (v\<lparr>inodes := (inodes v)(a := inode0\<lparr>i_name := Some p\<rparr>), mallocs := tl ms\<rparr>)"
        by (rule unregistered_inv [OF assms(1) a(3), rotated]) (simp add: inode0_def)
      then show ?thesis using inode_reserve_nomem [OF t g(3,1,2) m True] assms(2) by auto
    next
      case False
      then obtain c ms' where "ms = Some c # ms'" by (cases ms) auto
      then have m3: "mallocs v = Some a # Some b # Some c # ms'" using m by simp
      obtain v' where v': "inode_reserve v (Some p) = Some (VFS_SUCCESS, Some a, v')" "inode_ok v'"
        "v' = v\<lparr>inodes := (inodes v)(a := inode0\<lparr>i_name := Some p\<rparr>), mallocs := ms', inode_rb_tree := inode_rb_tree v'\<rparr>"
        "set (registered v') = (if inode_open v p = None then insert a (set (registered v)) else set (registered v))"
        using inode_reserve_ok [OF ok(1) t g(3,1,2) _ m3] assms(3) a by (auto simp: name_fits_def)
      have o: "open_files v' = open_files v" "files v' = files v" "gives v' = gives v" "mallocs v' = ms'"
        "inodes v' = (inodes v)(a := inode0\<lparr>i_name := Some p\<rparr>)" "files_handle_dev v' = files_handle_dev v"
        by (subst v'(3), simp add: open_files_def)+
      have "file_ok v'" using a o by (intro file_ok_inodes [OF assms(1), of _ a]) (auto simp: inode0_def)
      moreover have "heap_fresh v'" using ok(2) m3 o v'(4) a by (auto simp: heap_fresh_def split: if_splits)
      ultimately have "vfs_inv v'" using assms(1) v'(2,4) o by (auto simp: vfs_inv_def)
      then show ?thesis using assms(2) v'(1,4) o a by (auto split: if_splits)
    qed
  qed
qed

lemma set_type_inv:
  assumes "vfs_inv v" and "inodes v a = inode0\<lparr>i_name := Some p\<rparr>"
    and "\<And>n. n \<in> set (registered v) \<Longrightarrow> ty = VFS_TYPE_FS_DEV \<Longrightarrow> \<not> strict_prefix p (inode_key (inodes v) n)"
  shows "vfs_inv (v\<lparr>inodes := (inodes v)(a := (inodes v a)\<lparr>i_type := ty, i_ops := ops, i_arg := arg\<rparr>)\<rparr>)" (is "vfs_inv ?v")
proof -
  have r: "registered ?v = registered v" "open_files ?v = open_files v" by (simp_all add: registered_def open_files_def)
  have k: "inode_key (inodes ?v) = inode_key (inodes v)" by (rule ext) (simp add: inode_key_def name_of_def)
  have na: "names_apart (inodes v) (set (registered v))" using assms(1) by (simp add: vfs_inv_def inode_ok_def)
  have "names_apart (inodes ?v) (set (registered v))"
    unfolding names_apart_def k
  proof (intro ballI conjI impI)
    fix x y
    assume x: "x \<in> set (registered v)" and y: "y \<in> set (registered v)" and fs: "is_fs (inodes ?v x)"
    have "inode_key (inodes v) a = p" using assms(2) by (simp add: inode_key_def name_of_def)
    then show "\<not> strict_prefix (inode_key (inodes v) x) (inode_key (inodes v) y)"
      using na x y fs assms(3) [OF y] by (cases "x = a") (auto simp: names_apart_def is_fs_def)
  qed (use na in \<open>auto simp: names_apart_def\<close>)
  then have "inode_ok ?v" using assms(1) r k by (simp add: vfs_inv_def inode_ok_def)
  moreover have "file_ok ?v"
    using no_users [OF assms(1), of a] assms(1,2) by (intro file_ok_inodes [OF assms(1), of _ a]) (auto simp: inode0_def)
  ultimately show ?thesis using assms(1) r by (simp add: vfs_inv_def heap_fresh_def)
qed

lemma register_inv:
  assumes "vfs_inv v" and "register_node ty v path ops arg = Some (r, v')" and "False \<notin> set (gives v)"
    and "\<And>p. path = Some p \<Longrightarrow> name_fits v ty p"
  shows "vfs_inv v'"
proof -
  obtain ok v1 where t: "xSemaphoreTake v = Some (ok, v1)" using assms(2) by (auto simp: register_node_def split: Option.bind_splits)
  note x = xSemaphoreTake_inv [OF t]
  have g: "xSemaphoreGive w = (True, snd (xSemaphoreGive w))" if "gives w = gives v" for w :: "'a vfs"
    using that assms(3) by (auto simp: xSemaphoreGive_def split: list.split bool.split)
  show ?thesis
  proof (cases "ok \<and> path \<noteq> None")
    case False
    then show ?thesis using assms(1,2) t x g [OF x(6)] by (auto simp: register_node_def inode_reserve_def Let_def xSemaphoreGive_pair split: if_splits prod.splits)
  next
    case True
    then obtain p where p: "ok" "path = Some p" by blast
    obtain ret q v2 where rs: "inode_reserve v1 (Some p) = Some (ret, q, v2)" using assms(2) t p by (auto simp: register_node_def split: Option.bind_splits)
    have nf: "name_fits v1 ty p" using assms(4) [OF p(2)] x by (simp add: name_fits_def)
    have i1: "vfs_inv v1" using x(1) assms(1) by simp
    note i2 = inode_reserve_inv [OF i1 rs nf]
    define v3 where "v3 = (case q of Some n \<Rightarrow> if ret = VFS_SUCCESS
        then v2\<lparr>inodes := (inodes v2)(n := (inodes v2 n)\<lparr>i_type := ty, i_ops := ops, i_arg := arg\<rparr>)\<rparr> else v2 | None \<Rightarrow> v2)"
    have "vfs_inv v3 \<and> gives v3 = gives v"
    proof (cases q)
      case None
      then show ?thesis using i2 x(6) by (simp add: v3_def)
    next
      case (Some a)
      have "\<not> strict_prefix p (inode_key (inodes v2) n)" if "n \<in> set (registered v2)" "ty = VFS_TYPE_FS_DEV" for n
        using that i2 Some nf by (cases "n = a") (auto simp: name_fits_def inode_key_def name_of_def)
      then have "vfs_inv (v2\<lparr>inodes := (inodes v2)(a := (inodes v2 a)\<lparr>i_type := ty, i_ops := ops, i_arg := arg\<rparr>)\<rparr>)"
        using i2 Some by (intro set_type_inv [of _ _ p]) auto
      then show ?thesis using i2 Some x(6) by (simp add: v3_def)
    qed
    then show ?thesis using assms(2) t p rs g [of v3] unfolding v3_def [symmetric]
      by (auto simp: register_node_def v3_def [symmetric] Let_def xSemaphoreGive_pair split: prod.splits)
  qed
qed

lemma unregister_inv:
  assumes "vfs_inv v" and "unregister_node v path = Some (r, v')" and "\<And>p. path = Some p \<Longrightarrow> nul_free p"
  shows "vfs_inv v'"
proof -
  obtain ok v1 where t: "xSemaphoreTake v = Some (ok, v1)" using assms(2) by (auto simp: unregister_node_def split: Option.bind_splits)
  have i1: "vfs_inv v1" using xSemaphoreTake_inv(1) [OF t] assms(1) by simp
  show ?thesis
  proof (cases "ok \<and> path \<noteq> None")
    case False
    then show ?thesis using assms(2) t i1
      by (auto simp: unregister_node_def inode_release_def xSemaphoreGive_pair split: if_splits prod.split_asm)
  next
    case True
    then obtain p where p: "ok" "path = Some p" by blast
    have ok: "inode_ok v1" using i1 by (simp add: vfs_inv_def)
    obtain ret v2 where d: "inode_release v1 (Some p) = Some (ret, v2)" "inode_ok v2" "v2 = v1\<lparr>inode_rb_tree := inode_rb_tree v2\<rparr>"
      "set (registered v2) = set (registered v1) - {n. inode_open v1 p = Some n \<and> i_refs (inodes v1 n) = 0}"
      using inode_release_ok [OF ok assms(3) [OF p(2)]] by blast
    have o: "open_files v2 = open_files v1" "files v2 = files v1" "mallocs v2 = mallocs v1" "inodes v2 = inodes v1" "files_handle_dev v2 = files_handle_dev v1"
      by (subst d(3), simp add: open_files_def)+
    have "file_ok v2" using i1 o by (auto simp: vfs_inv_def file_ok_def users_def)
    moreover have "heap_fresh v2" using heap_fresh_suffix [of v1 "[]" v2] i1 o d(4) by (auto simp: vfs_inv_def)
    moreover have "n \<in> set (registered v2)" if f: "f \<in> set (open_files v1)" "n \<in> set (registered v1)" "f_node (files v1 f) = Some n" for f n
    proof -
      have "f \<in> users v1 n" using f by (simp add: users_def)
      then have "0 < card (users v1 n)" by (auto simp: card_gt_0_iff users_def)
      then have "i_refs (inodes v1 n) \<noteq> 0" using i1 by (metis vfs_inv_def file_ok_def less_irrefl unat_0)
      then show ?thesis using f(2) d(4) by auto
    qed
    ultimately have "vfs_inv v2" using i1 d(2) o unfolding vfs_inv_def by metis
    then show ?thesis using assms(2) t p d(1) by (auto simp: unregister_node_def xSemaphoreGive_pair split: prod.split_asm)
  qed
qed

end
