(* ===== verification/Vfs_Device.thy ===== *)
theory Vfs_Device
  imports Vfs
begin

unbundle bit_operations_syntax

text \<open>
  The character drivers of \<open>fs/vfs/device\<close>: watchdog, PWM, real-time clock, I2C, SPI and GPIO. They
  run below the system calls of \<open>vfs.c\<close> and above the \<open>hal_*\<close> functions of \<open>hal/soc\<close>, which are not part of
  the sources. Each driver takes its \<open>hal\<close> functions as a record of state transformers on the device
  state; a \<open>hal\<close> function that fills a buffer does so in \<open>ram\<close>.
\<close>

section \<open>Device state\<close>

text \<open>\<open>config\<close> and \<open>level\<close> of \<open>gpio_dev_t\<close>; of \<open>i2c_dev_t\<close> the drivers read \<open>config.dev_addr\<close> only.\<close>

record gpio_dev_t =
  gpio_config :: int
  gpio_level :: u8

record dev_t =
  ram :: "addr \<Rightarrow> u8"
  gpio_devs :: "addr \<Rightarrow> gpio_dev_t"
  i2c_dev_addr :: "addr \<Rightarrow> u16"

text \<open>A little-endian load of 32 bits and a pointer addition on the 32-bit machine.\<close>

definition padd :: "addr \<Rightarrow> nat \<Rightarrow> addr" where
  "padd a n = (a + n) mod 2 ^ 32"

definition ld32 :: "(addr \<Rightarrow> u8) \<Rightarrow> addr \<Rightarrow> u32" where
  "ld32 m a = ucast (m a) OR push_bit 8 (ucast (m (padd a 1))) OR push_bit 16 (ucast (m (padd a 2))) OR push_bit 24 (ucast (m (padd a 3)))"

definition on_dev :: "'d vfs \<Rightarrow> ('d \<Rightarrow> int \<times> 'd) \<Rightarrow> int \<times> 'd vfs" where
  "on_dev v h = (let (ret, d) = h (dev v) in (ret, v\<lparr>dev := d\<rparr>))"

text \<open>\<open>ret = nbytes\<close> converts a \<open>size_t\<close> to an \<open>int\<close>.\<close>

definition int_of_size :: "u32 \<Rightarrow> int" where
  "int_of_size n = sint n"

section \<open>Opening and closing\<close>

text \<open>
  All drivers open and close alike: the hardware is initialised by the first open and finalised by
  the last close, which they recognise by the reference count of the inode. \<open>fp->node\<close> is \<open>node\<close>,
  \<open>fp->node->i_arg\<close> the device.
\<close>

definition dev_open :: "(ptr \<Rightarrow> 'd \<Rightarrow> int \<times> 'd) \<Rightarrow> addr \<Rightarrow> 'd vfs \<Rightarrow> int \<times> 'd vfs" where
  "dev_open hal_init fp v = (case f_node (files v fp) of
      None \<Rightarrow> (- EINVAL, v)
    | Some node \<Rightarrow>
        if i_refs (inodes v node) = 1 then on_dev v (hal_init (i_arg (inodes v node)))
        else (VFS_SUCCESS, v))"

definition dev_close :: "(addr \<Rightarrow> 'd \<Rightarrow> int \<times> 'd) \<Rightarrow> addr \<Rightarrow> 'd vfs \<Rightarrow> int \<times> 'd vfs" where
  "dev_close hal_finalize fp v = (case f_node (files v fp) of
      None \<Rightarrow> (- EINVAL, v)
    | Some node \<Rightarrow>
        if i_refs (inodes v node) = 1 then
          (case i_arg (inodes v node) of Some d \<Rightarrow> on_dev v (hal_finalize d) | None \<Rightarrow> (- EINVAL, v))
        else (VFS_SUCCESS, v))"

text \<open>The other operations look up the device and fail with \<open>-EINVAL\<close> without one.\<close>

definition with_dev :: "addr \<Rightarrow> 'd vfs \<Rightarrow> (addr \<Rightarrow> int \<times> 'd vfs) \<Rightarrow> int \<times> 'd vfs" where
  "with_dev fp v body = (case f_node (files v fp) of
      None \<Rightarrow> (- EINVAL, v)
    | Some node \<Rightarrow> (case i_arg (inodes v node) of None \<Rightarrow> (- EINVAL, v) | Some d \<Rightarrow> body d))"

definition no_ops :: "'d file_ops" where
  "no_ops = \<lparr>fo_open = None, fo_close = None, fo_read = None, fo_write = None, fo_ioctl = None, fo_sync = None\<rparr>"

section \<open>Watchdog\<close>

record 'd wdg_hal =
  hal_wdg_init :: "ptr \<Rightarrow> 'd \<Rightarrow> int \<times> 'd"
  hal_wdg_reload :: "addr \<Rightarrow> 'd \<Rightarrow> 'd"
  hal_wdg_finalize :: "addr \<Rightarrow> 'd \<Rightarrow> int \<times> 'd"

definition IOCTL_WDG_RELOAD :: int where "IOCTL_WDG_RELOAD = 1"

definition vfs_wdg_open :: "'d wdg_hal \<Rightarrow> addr \<Rightarrow> addr \<Rightarrow> 'd vfs \<Rightarrow> int \<times> 'd vfs" where
  "vfs_wdg_open hal inode fp v = dev_open (hal_wdg_init hal) fp v"

definition vfs_wdg_close :: "'d wdg_hal \<Rightarrow> addr \<Rightarrow> 'd vfs \<Rightarrow> int \<times> 'd vfs" where
  "vfs_wdg_close hal fp v = dev_close (hal_wdg_finalize hal) fp v"

definition vfs_wdg_ioctl :: "'d wdg_hal \<Rightarrow> addr \<Rightarrow> int \<Rightarrow> u32 \<Rightarrow> 'd vfs \<Rightarrow> int \<times> 'd vfs" where
  "vfs_wdg_ioctl hal fp cmd arg v = with_dev fp v (\<lambda>d.
     if cmd = IOCTL_WDG_RELOAD then (VFS_SUCCESS, v\<lparr>dev := hal_wdg_reload hal d (dev v)\<rparr>)
     else (- EINVAL, v))"

definition wdg_ops :: "'d wdg_hal \<Rightarrow> 'd file_ops" where
  "wdg_ops hal = no_ops\<lparr>
     fo_open := Some (\<lambda>inode fp v. Some (vfs_wdg_open hal inode fp v)),
     fo_close := Some (\<lambda>fp v. Some (vfs_wdg_close hal fp v)),
     fo_ioctl := Some (\<lambda>fp cmd arg v. Some (vfs_wdg_ioctl hal fp cmd arg v))\<rparr>"

section \<open>PWM\<close>

record 'd pwm_hal =
  hal_pwm_init_bydev :: "ptr \<Rightarrow> 'd \<Rightarrow> int \<times> 'd"
  hal_pwm_start_bydev :: "addr \<Rightarrow> 'd \<Rightarrow> int \<times> 'd"
  hal_pwm_stop_bydev :: "addr \<Rightarrow> 'd \<Rightarrow> int \<times> 'd"
  hal_pwm_set_duty_bydev :: "addr \<Rightarrow> u32 \<Rightarrow> 'd \<Rightarrow> int \<times> 'd"
  hal_pwm_set_freq_bydev :: "addr \<Rightarrow> u32 \<Rightarrow> 'd \<Rightarrow> int \<times> 'd"
  hal_pwm_finalize_bydev :: "addr \<Rightarrow> 'd \<Rightarrow> int \<times> 'd"

definition IOCTL_PWM_OUTPUT_START :: int where "IOCTL_PWM_OUTPUT_START = 1"
definition IOCTL_PWM_OUTPUT_STOP :: int where "IOCTL_PWM_OUTPUT_STOP = 2"
definition IOCTL_PWM_OUTPUT_DUTY :: int where "IOCTL_PWM_OUTPUT_DUTY = 3"
definition IOCTL_PWM_OUTPUT_FREQ :: int where "IOCTL_PWM_OUTPUT_FREQ = 4"

definition vfs_pwm_open :: "'d pwm_hal \<Rightarrow> addr \<Rightarrow> addr \<Rightarrow> 'd vfs \<Rightarrow> int \<times> 'd vfs" where
  "vfs_pwm_open hal inode fp v = dev_open (hal_pwm_init_bydev hal) fp v"

definition vfs_pwm_close :: "'d pwm_hal \<Rightarrow> addr \<Rightarrow> 'd vfs \<Rightarrow> int \<times> 'd vfs" where
  "vfs_pwm_close hal fp v = dev_close (hal_pwm_finalize_bydev hal) fp v"

text \<open>\<open>duty\<close> is a \<open>float\<close> the driver only passes on: its 32 bits.\<close>

definition vfs_pwm_ioctl :: "('x dev_t_scheme) pwm_hal \<Rightarrow> addr \<Rightarrow> int \<Rightarrow> u32 \<Rightarrow> 'x dev_t_scheme vfs \<Rightarrow> int \<times> 'x dev_t_scheme vfs" where
  "vfs_pwm_ioctl hal fp cmd arg v = with_dev fp v (\<lambda>d.
     if cmd = IOCTL_PWM_OUTPUT_START then on_dev v (hal_pwm_start_bydev hal d)
     else if cmd = IOCTL_PWM_OUTPUT_STOP then on_dev v (hal_pwm_stop_bydev hal d)
     else if cmd = IOCTL_PWM_OUTPUT_DUTY then
       if arg = 0 then (- EINVAL, v) else on_dev v (hal_pwm_set_duty_bydev hal d (ld32 (ram (dev v)) (unat arg)))
     else if cmd = IOCTL_PWM_OUTPUT_FREQ then
       if arg = 0 then (- EINVAL, v) else on_dev v (hal_pwm_set_freq_bydev hal d (ld32 (ram (dev v)) (unat arg)))
     else (- EINVAL, v))"

definition pwm_ops :: "('x dev_t_scheme) pwm_hal \<Rightarrow> ('x dev_t_scheme) file_ops" where
  "pwm_ops hal = no_ops\<lparr>
     fo_open := Some (\<lambda>inode fp v. Some (vfs_pwm_open hal inode fp v)),
     fo_close := Some (\<lambda>fp v. Some (vfs_pwm_close hal fp v)),
     fo_ioctl := Some (\<lambda>fp cmd arg v. Some (vfs_pwm_ioctl hal fp cmd arg v))\<rparr>"

section \<open>Real-time clock\<close>

record 'd rtc_hal =
  hal_rtc_init :: "ptr \<Rightarrow> 'd \<Rightarrow> int \<times> 'd"
  hal_rtc_get_time :: "addr \<Rightarrow> addr \<Rightarrow> 'd \<Rightarrow> int \<times> 'd"
  hal_rtc_set_time :: "addr \<Rightarrow> addr \<Rightarrow> 'd \<Rightarrow> int \<times> 'd"
  hal_rtc_finalize :: "addr \<Rightarrow> 'd \<Rightarrow> int \<times> 'd"

text \<open>\<open>sizeof(rtc_time_t)\<close>: seven bytes.\<close>

definition sizeof_rtc_time :: u32 where "sizeof_rtc_time = 7"

definition vfs_rtc_open :: "'d rtc_hal \<Rightarrow> addr \<Rightarrow> addr \<Rightarrow> 'd vfs \<Rightarrow> int \<times> 'd vfs" where
  "vfs_rtc_open hal inode fp v = dev_open (hal_rtc_init hal) fp v"

definition vfs_rtc_close :: "'d rtc_hal \<Rightarrow> addr \<Rightarrow> 'd vfs \<Rightarrow> int \<times> 'd vfs" where
  "vfs_rtc_close hal fp v = dev_close (hal_rtc_finalize hal) fp v"

definition done_bytes :: "u32 \<Rightarrow> int \<times> 'd vfs \<Rightarrow> int \<times> 'd vfs" where
  "done_bytes nbytes r = (let (ret, v) = r in (if ret = 0 then int_of_size nbytes else ret, v))"

definition vfs_rtc_read :: "'d rtc_hal \<Rightarrow> addr \<Rightarrow> addr \<Rightarrow> u32 \<Rightarrow> 'd vfs \<Rightarrow> int \<times> 'd vfs" where
  "vfs_rtc_read hal fp buf nbytes v =
     (if nbytes \<ge> sizeof_rtc_time
      then with_dev fp v (\<lambda>d. done_bytes nbytes (on_dev v (hal_rtc_get_time hal d buf)))
      else (- EINVAL, v))"

definition vfs_rtc_write :: "'d rtc_hal \<Rightarrow> addr \<Rightarrow> addr \<Rightarrow> u32 \<Rightarrow> 'd vfs \<Rightarrow> int \<times> 'd vfs" where
  "vfs_rtc_write hal fp buf nbytes v =
     (if nbytes \<ge> sizeof_rtc_time
      then with_dev fp v (\<lambda>d. done_bytes nbytes (on_dev v (hal_rtc_set_time hal d buf)))
      else (- EINVAL, v))"

definition rtc_ops :: "'d rtc_hal \<Rightarrow> 'd file_ops" where
  "rtc_ops hal = no_ops\<lparr>
     fo_open := Some (\<lambda>inode fp v. Some (vfs_rtc_open hal inode fp v)),
     fo_close := Some (\<lambda>fp v. Some (vfs_rtc_close hal fp v)),
     fo_read := Some (\<lambda>fp buf n v. Some (vfs_rtc_read hal fp buf n v)),
     fo_write := Some (\<lambda>fp buf n v. Some (vfs_rtc_write hal fp buf n v))\<rparr>"

section \<open>I2C\<close>

text \<open>The size parameter of the \<open>hal\<close> transfer functions is a \<open>uint16_t\<close>.\<close>

record 'd i2c_hal =
  hal_i2c_init :: "ptr \<Rightarrow> 'd \<Rightarrow> int \<times> 'd"
  hal_i2c_master_recv :: "addr \<Rightarrow> u16 \<Rightarrow> addr \<Rightarrow> u16 \<Rightarrow> 'd \<Rightarrow> int \<times> 'd"
  hal_i2c_master_send :: "addr \<Rightarrow> u16 \<Rightarrow> addr \<Rightarrow> u16 \<Rightarrow> 'd \<Rightarrow> int \<times> 'd"
  hal_i2c_finalize :: "addr \<Rightarrow> 'd \<Rightarrow> int \<times> 'd"

definition vfs_i2c_open :: "'d i2c_hal \<Rightarrow> addr \<Rightarrow> addr \<Rightarrow> 'd vfs \<Rightarrow> int \<times> 'd vfs" where
  "vfs_i2c_open hal inode fp v = dev_open (hal_i2c_init hal) fp v"

definition vfs_i2c_close :: "'d i2c_hal \<Rightarrow> addr \<Rightarrow> 'd vfs \<Rightarrow> int \<times> 'd vfs" where
  "vfs_i2c_close hal fp v = dev_close (hal_i2c_finalize hal) fp v"

text \<open>
  Reading and writing test \<open>dev_addr\<close>, which they load through the device pointer first: without a
  device the access goes through \<open>NULL\<close>.
\<close>

definition i2c_transfer ::
  "(addr \<Rightarrow> u16 \<Rightarrow> addr \<Rightarrow> u16 \<Rightarrow> 'x dev_t_scheme \<Rightarrow> int \<times> 'x dev_t_scheme) \<Rightarrow> addr \<Rightarrow> addr \<Rightarrow> u32 \<Rightarrow> 'x dev_t_scheme vfs \<Rightarrow> (int \<times> 'x dev_t_scheme vfs) option" where
  "i2c_transfer hal fp buf nbytes v = (case f_node (files v fp) of
      None \<Rightarrow> Some (- EINVAL, v)
    | Some node \<Rightarrow> do {
        d \<leftarrow> i_arg (inodes v node);
        let dev_addr = i2c_dev_addr (dev v) d;
        if dev_addr \<noteq> 0 then Some (done_bytes nbytes (on_dev v (hal d dev_addr buf (ucast nbytes))))
        else Some (- EINVAL, v)
      })"

definition vfs_i2c_read :: "('x dev_t_scheme) i2c_hal \<Rightarrow> addr \<Rightarrow> addr \<Rightarrow> u32 \<Rightarrow> 'x dev_t_scheme vfs \<Rightarrow> (int \<times> 'x dev_t_scheme vfs) option" where
  "vfs_i2c_read hal fp buf nbytes v = i2c_transfer (hal_i2c_master_recv hal) fp buf nbytes v"

definition vfs_i2c_write :: "('x dev_t_scheme) i2c_hal \<Rightarrow> addr \<Rightarrow> addr \<Rightarrow> u32 \<Rightarrow> 'x dev_t_scheme vfs \<Rightarrow> (int \<times> 'x dev_t_scheme vfs) option" where
  "vfs_i2c_write hal fp buf nbytes v = i2c_transfer (hal_i2c_master_send hal) fp buf nbytes v"

definition i2c_ops :: "('x dev_t_scheme) i2c_hal \<Rightarrow> ('x dev_t_scheme) file_ops" where
  "i2c_ops hal = no_ops\<lparr>
     fo_open := Some (\<lambda>inode fp v. Some (vfs_i2c_open hal inode fp v)),
     fo_close := Some (\<lambda>fp v. Some (vfs_i2c_close hal fp v)),
     fo_read := Some (\<lambda>fp buf n v. vfs_i2c_read hal fp buf n v),
     fo_write := Some (\<lambda>fp buf n v. vfs_i2c_write hal fp buf n v)\<rparr>"

section \<open>SPI\<close>

record 'd spi_hal =
  hal_spi_init :: "ptr \<Rightarrow> 'd \<Rightarrow> int \<times> 'd"
  hal_spi_send :: "addr \<Rightarrow> addr \<Rightarrow> u16 \<Rightarrow> 'd \<Rightarrow> int \<times> 'd"
  hal_spi_recv :: "addr \<Rightarrow> addr \<Rightarrow> u16 \<Rightarrow> 'd \<Rightarrow> int \<times> 'd"
  hal_spi_finalize :: "addr \<Rightarrow> 'd \<Rightarrow> int \<times> 'd"
  hal_spi_set_rwmode :: "addr \<Rightarrow> int \<Rightarrow> 'd \<Rightarrow> int \<times> 'd"
  hal_spi_set_rwspeed :: "addr \<Rightarrow> u32 \<Rightarrow> 'd \<Rightarrow> int \<times> 'd"
  hal_spi_transfer :: "addr \<Rightarrow> u32 \<Rightarrow> u8 \<Rightarrow> 'd \<Rightarrow> int \<times> 'd"

definition IOCTL_SPI_IOC_MESSAGE :: "int \<Rightarrow> int" where "IOCTL_SPI_IOC_MESSAGE n = 9 + n"

definition vfs_spi_open :: "'d spi_hal \<Rightarrow> addr \<Rightarrow> addr \<Rightarrow> 'd vfs \<Rightarrow> int \<times> 'd vfs" where
  "vfs_spi_open hal inode fp v = dev_open (hal_spi_init hal) fp v"

definition vfs_spi_close :: "'d spi_hal \<Rightarrow> addr \<Rightarrow> 'd vfs \<Rightarrow> int \<times> 'd vfs" where
  "vfs_spi_close hal fp v = dev_close (hal_spi_finalize hal) fp v"

definition vfs_spi_read :: "'d spi_hal \<Rightarrow> addr \<Rightarrow> addr \<Rightarrow> u32 \<Rightarrow> 'd vfs \<Rightarrow> int \<times> 'd vfs" where
  "vfs_spi_read hal fp buf nbytes v =
     with_dev fp v (\<lambda>d. done_bytes nbytes (on_dev v (hal_spi_recv hal d buf (ucast nbytes))))"

definition vfs_spi_write :: "'d spi_hal \<Rightarrow> addr \<Rightarrow> addr \<Rightarrow> u32 \<Rightarrow> 'd vfs \<Rightarrow> int \<times> 'd vfs" where
  "vfs_spi_write hal fp buf nbytes v =
     with_dev fp v (\<lambda>d. done_bytes nbytes (on_dev v (hal_spi_send hal d buf (ucast nbytes))))"

text \<open>The mode and the speed are loaded through \<open>arg\<close> without a check for \<open>NULL\<close>.\<close>

definition vfs_spi_ioctl :: "('x dev_t_scheme) spi_hal \<Rightarrow> addr \<Rightarrow> int \<Rightarrow> u32 \<Rightarrow> 'x dev_t_scheme vfs \<Rightarrow> (int \<times> 'x dev_t_scheme vfs) option" where
  "vfs_spi_ioctl hal fp cmd arg v = (case f_node (files v fp) of
      None \<Rightarrow> Some (- EINVAL, v)
    | Some node \<Rightarrow> (case i_arg (inodes v node) of
        None \<Rightarrow> Some (- EINVAL, v)
      | Some d \<Rightarrow>
          if cmd \<in> {0, 1} then
            if arg = 0 then None else Some (on_dev v (hal_spi_set_rwmode hal d (sint (ld32 (ram (dev v)) (unat arg)))))
          else if cmd \<in> {6, 7} then
            if arg = 0 then None else Some (on_dev v (hal_spi_set_rwspeed hal d (ld32 (ram (dev v)) (unat arg))))
          else if cmd \<in> {2, 3, 4, 5, 8, 9} then Some (-1, v)
          else if cmd = IOCTL_SPI_IOC_MESSAGE 1 then Some (on_dev v (hal_spi_transfer hal d arg 1))
          else if cmd = IOCTL_SPI_IOC_MESSAGE 2 then Some (on_dev v (hal_spi_transfer hal d arg 2))
          else Some (- EINVAL, v)))"

definition spi_ops :: "('x dev_t_scheme) spi_hal \<Rightarrow> ('x dev_t_scheme) file_ops" where
  "spi_ops hal = no_ops\<lparr>
     fo_open := Some (\<lambda>inode fp v. Some (vfs_spi_open hal inode fp v)),
     fo_close := Some (\<lambda>fp v. Some (vfs_spi_close hal fp v)),
     fo_read := Some (\<lambda>fp buf n v. Some (vfs_spi_read hal fp buf n v)),
     fo_write := Some (\<lambda>fp buf n v. Some (vfs_spi_write hal fp buf n v)),
     fo_ioctl := Some (\<lambda>fp cmd arg v. vfs_spi_ioctl hal fp cmd arg v)\<rparr>"

section \<open>GPIO\<close>

record 'd gpio_hal =
  hal_gpio_init :: "ptr \<Rightarrow> 'd \<Rightarrow> int \<times> 'd"
  hal_gpio_output_high :: "addr \<Rightarrow> 'd \<Rightarrow> int \<times> 'd"
  hal_gpio_output_low :: "addr \<Rightarrow> 'd \<Rightarrow> int \<times> 'd"
  hal_gpio_output_toggle :: "addr \<Rightarrow> 'd \<Rightarrow> int \<times> 'd"
  hal_gpio_input_get :: "addr \<Rightarrow> addr \<Rightarrow> 'd \<Rightarrow> int \<times> 'd"
  hal_gpio_pulltype_set :: "addr \<Rightarrow> int \<Rightarrow> 'd \<Rightarrow> int \<times> 'd"
  hal_gpio_finalize :: "addr \<Rightarrow> 'd \<Rightarrow> int \<times> 'd"

definition GPIO_CONFIG_MODE_OUTPUT :: int where "GPIO_CONFIG_MODE_OUTPUT = 2"
definition GPIO_CONFIG_MODE_INPUT :: int where "GPIO_CONFIG_MODE_INPUT = 3"
definition GPIO_CONFIG_PULL_NONE :: int where "GPIO_CONFIG_PULL_NONE = 0x10"
definition GPIO_CONFIG_PULL_UP :: int where "GPIO_CONFIG_PULL_UP = 0x20"
definition GPIO_CONFIG_PULL_DOWN :: int where "GPIO_CONFIG_PULL_DOWN = 0x30"
definition OUTPUT_LOW :: u8 where "OUTPUT_LOW = 0"
definition OUTPUT_HIGH :: u8 where "OUTPUT_HIGH = 1"
definition OUTPUT_TOGGLE :: u8 where "OUTPUT_TOGGLE = 2"

definition vfs_gpio_open :: "'d gpio_hal \<Rightarrow> addr \<Rightarrow> addr \<Rightarrow> 'd vfs \<Rightarrow> int \<times> 'd vfs" where
  "vfs_gpio_open hal inode fp v = dev_open (hal_gpio_init hal) fp v"

definition vfs_gpio_close :: "'d gpio_hal \<Rightarrow> addr \<Rightarrow> 'd vfs \<Rightarrow> int \<times> 'd vfs" where
  "vfs_gpio_close hal fp v = dev_close (hal_gpio_finalize hal) fp v"

definition vfs_gpio_write :: "('x dev_t_scheme) gpio_hal \<Rightarrow> addr \<Rightarrow> addr \<Rightarrow> u32 \<Rightarrow> 'x dev_t_scheme vfs \<Rightarrow> int \<times> 'x dev_t_scheme vfs" where
  "vfs_gpio_write hal fp buf nbytes v = (case f_node (files v fp) of
      None \<Rightarrow> (-1, v)
    | Some node \<Rightarrow> (case i_arg (inodes v node) of
        None \<Rightarrow> (- EINVAL, v)
      | Some d \<Rightarrow>
          if gpio_config (gpio_devs (dev v) d) = GPIO_CONFIG_MODE_OUTPUT then
            let write_buf = ram (dev v) buf in
            if write_buf = OUTPUT_LOW then on_dev v (hal_gpio_output_low hal d)
            else if write_buf = OUTPUT_HIGH then on_dev v (hal_gpio_output_high hal d)
            else if write_buf = OUTPUT_TOGGLE then on_dev v (hal_gpio_output_toggle hal d)
            else (- EINVAL, v)
          else (- EINVAL, v)))"

definition vfs_gpio_read :: "('x dev_t_scheme) gpio_hal \<Rightarrow> addr \<Rightarrow> addr \<Rightarrow> u32 \<Rightarrow> 'x dev_t_scheme vfs \<Rightarrow> int \<times> 'x dev_t_scheme vfs" where
  "vfs_gpio_read hal fp buf nbytes v = with_dev fp v (\<lambda>d.
     let g = gpio_devs (dev v) d;
         (ret, v) = (if gpio_config g = GPIO_CONFIG_MODE_OUTPUT
           then (0, v\<lparr>dev := (dev v)\<lparr>ram := (ram (dev v))(buf := gpio_level g)\<rparr>\<rparr>) else (-1, v));
         (ret, v) = (if gpio_config g = GPIO_CONFIG_MODE_INPUT then on_dev v (hal_gpio_input_get hal d buf) else (ret, v))
     in (if ret = 0 then 1 else ret, v))"

definition vfs_gpio_ioctl :: "'d gpio_hal \<Rightarrow> addr \<Rightarrow> int \<Rightarrow> u32 \<Rightarrow> 'd vfs \<Rightarrow> int \<times> 'd vfs" where
  "vfs_gpio_ioctl hal fp cmd arg v = with_dev fp v (\<lambda>d.
     if cmd = 0 then on_dev v (hal_gpio_pulltype_set hal d GPIO_CONFIG_PULL_UP)
     else if cmd = 1 then on_dev v (hal_gpio_pulltype_set hal d GPIO_CONFIG_PULL_DOWN)
     else if cmd = 2 then on_dev v (hal_gpio_pulltype_set hal d GPIO_CONFIG_PULL_NONE)
     else (- EINVAL, v))"

definition gpio_ops :: "('x dev_t_scheme) gpio_hal \<Rightarrow> ('x dev_t_scheme) file_ops" where
  "gpio_ops hal = no_ops\<lparr>
     fo_open := Some (\<lambda>inode fp v. Some (vfs_gpio_open hal inode fp v)),
     fo_close := Some (\<lambda>fp v. Some (vfs_gpio_close hal fp v)),
     fo_read := Some (\<lambda>fp buf n v. Some (vfs_gpio_read hal fp buf n v)),
     fo_write := Some (\<lambda>fp buf n v. Some (vfs_gpio_write hal fp buf n v)),
     fo_ioctl := Some (\<lambda>fp cmd arg v. Some (vfs_gpio_ioctl hal fp cmd arg v))\<rparr>"

section \<open>The drivers leave the tables alone\<close>

text \<open>Every operation of a driver changes nothing but the device state.\<close>

definition dev_only :: "'d vfs \<Rightarrow> 'd vfs \<Rightarrow> bool" where
  "dev_only v v' \<longleftrightarrow> v' = v\<lparr>dev := dev v'\<rparr>"

named_theorems dev_simps

lemma dev_only_refl [dev_simps]: "dev_only v v" "dev_only v (v\<lparr>dev := d\<rparr>)"
  by (simp_all add: dev_only_def)

lemma on_dev_only [dev_simps]: "dev_only v (snd (on_dev v h))"
  by (simp add: on_dev_def dev_simps split: prod.split)

lemma done_bytes_snd [dev_simps]: "snd (done_bytes n r) = snd r"
  by (simp add: done_bytes_def split: prod.split)

lemma dev_open_only [dev_simps]: "dev_only v (snd (dev_open h fp v))"
  by (simp add: dev_open_def dev_simps split: option.split)

lemma dev_close_only [dev_simps]: "dev_only v (snd (dev_close h fp v))"
  by (simp add: dev_close_def dev_simps split: option.split)

lemma with_dev_only: "(\<And>d. dev_only v (snd (body d))) \<Longrightarrow> dev_only v (snd (with_dev fp v body))"
  by (simp add: with_dev_def dev_simps split: option.split)

lemma driver_ops_only:
  "dev_only v (snd (vfs_wdg_open wh i fp v))" "dev_only v (snd (vfs_wdg_close wh fp v))" "dev_only v (snd (vfs_wdg_ioctl wh fp cmd arg v))"
  "dev_only v (snd (vfs_rtc_open rh i fp v))" "dev_only v (snd (vfs_rtc_close rh fp v))"
  "dev_only v (snd (vfs_rtc_read rh fp buf n v))" "dev_only v (snd (vfs_rtc_write rh fp buf n v))"
  "dev_only v (snd (vfs_spi_open sh i fp v))" "dev_only v (snd (vfs_spi_close sh fp v))"
  "dev_only v (snd (vfs_spi_read sh fp buf n v))" "dev_only v (snd (vfs_spi_write sh fp buf n v))"
  "dev_only v (snd (vfs_pwm_open ph i fp v))" "dev_only v (snd (vfs_pwm_close ph fp v))"
  "dev_only v (snd (vfs_i2c_open ih i fp v))" "dev_only v (snd (vfs_i2c_close ih fp v))"
  "dev_only v (snd (vfs_gpio_open gh i fp v))" "dev_only v (snd (vfs_gpio_close gh fp v))" "dev_only v (snd (vfs_gpio_ioctl gh fp cmd arg v))"
  by (auto simp: vfs_wdg_open_def vfs_wdg_close_def vfs_wdg_ioctl_def vfs_rtc_open_def vfs_rtc_close_def vfs_rtc_read_def vfs_rtc_write_def
      vfs_spi_open_def vfs_spi_close_def vfs_spi_read_def vfs_spi_write_def vfs_pwm_open_def vfs_pwm_close_def vfs_i2c_open_def
      vfs_i2c_close_def vfs_gpio_open_def vfs_gpio_close_def vfs_gpio_ioctl_def dev_simps intro!: with_dev_only)

lemma driver_mem_ops_only:
  "dev_only v (snd (vfs_pwm_ioctl ph fp cmd arg v))" "dev_only v (snd (vfs_gpio_write gh fp buf n v))" "dev_only v (snd (vfs_gpio_read gh fp buf n v))"
  "vfs_i2c_read ih fp buf n v = Some (r, v') \<Longrightarrow> dev_only v v'" "vfs_i2c_write ih fp buf n v = Some (r, v') \<Longrightarrow> dev_only v v'"
  "vfs_spi_ioctl sh fp cmd arg v = Some (r, v') \<Longrightarrow> dev_only v v'"
proof -
  have snd: "x = (r, v') \<Longrightarrow> dev_only v (snd x) \<Longrightarrow> dev_only v v'" for x by simp
  show "dev_only v (snd (vfs_pwm_ioctl ph fp cmd arg v))"
    by (auto simp: vfs_pwm_ioctl_def dev_simps intro!: with_dev_only)
  show "dev_only v (snd (vfs_gpio_write gh fp buf n v))"
    by (auto simp: vfs_gpio_write_def Let_def dev_simps split: option.split)
  show "dev_only v (snd (vfs_gpio_read gh fp buf n v))"
    unfolding vfs_gpio_read_def Let_def by (rule with_dev_only) (auto simp: on_dev_def dev_only_def split: prod.split)
  have i2c: "i2c_transfer h fp buf n v = Some (r, v') \<Longrightarrow> dev_only v v'" for h
    by (auto simp: i2c_transfer_def Let_def dev_simps split: option.splits Option.bind_splits if_splits dest!: snd)
  then show "vfs_i2c_read ih fp buf n v = Some (r, v') \<Longrightarrow> dev_only v v'" "vfs_i2c_write ih fp buf n v = Some (r, v') \<Longrightarrow> dev_only v v'"
    by (simp_all add: vfs_i2c_read_def vfs_i2c_write_def)
  show "vfs_spi_ioctl sh fp cmd arg v = Some (r, v') \<Longrightarrow> dev_only v v'"
    by (auto simp: vfs_spi_ioctl_def dev_simps split: option.splits if_splits dest!: snd)
qed

end
