(* ===== verification/Romfs.thy ===== *)
theory Romfs
  imports Vfs_Device
begin

unbundle bit_operations_syntax

text \<open>
  The read-only file system of \<open>fs/romfs/src/bl_romfs.c\<close>. The image lies in memory-mapped flash, its
  entries are found by following the offsets of big-endian headers: word 0 is the offset of the next
  entry with the type in the low bits, word 1 the first entry of a directory, word 2 the size, and
  the name starts at byte 16. Pointers into the image are 32-bit numbers with 0 for \<open>NULL\<close>.

  The loops that follow offsets are partial: the value \<open>None\<close> is a loop that never ends (an image with
  a cycle of offsets), an access through \<open>NULL\<close> or a write beyond the local name buffer.
\<close>

section \<open>State\<close>

record romfs_dir_t =
  dir_start_addr :: addr
  dir_end_addr :: addr
  dir_cur_addr :: addr
  d_name :: string

record romfs_filebuf_t =
  fb_buf :: addr
  fb_bufsize :: u32

record stat_t =
  st_size :: u32
  st_mode :: nat

record romfs_dev = dev_t +
  flash :: "addr \<Rightarrow> u8"
  romfs_root :: addr
  romfs_dirs :: "addr \<Rightarrow> romfs_dir_t"
  romfs_filebufs :: "addr \<Rightarrow> romfs_filebuf_t"
  stats :: "addr \<Rightarrow> stat_t"

type_synonym 'x romfs = "'x romfs_dev_scheme vfs"

definition ROMFS_MOUNTPOINT :: string where "ROMFS_MOUNTPOINT = ''/romfs''"
definition ROMFS_MAX_NAME_LEN :: nat where "ROMFS_MAX_NAME_LEN = 64"
definition HEAD_MAGIC_LEN :: nat where "HEAD_MAGIC_LEN = 16"
definition IOCTL_ROMFS_GET_FILEBUF :: int where "IOCTL_ROMFS_GET_FILEBUF = 1"
definition S_IFDIR :: nat where "S_IFDIR = 0x4000"
definition S_IFREG :: nat where "S_IFREG = 0x8000"
definition SEEK_SET :: int where "SEEK_SET = 0"
definition SEEK_CUR :: int where "SEEK_CUR = 1"
definition SEEK_END :: int where "SEEK_END = 2"

datatype romfh_type = ROMFH_HRD | ROMFH_DIR | ROMFH_REG | ROMFH_UNKNOW

section \<open>Reading the image\<close>

definition U32HTONL :: "u32 \<Rightarrow> u32" where
  "U32HTONL x = push_bit 24 (x AND 0xff) OR push_bit 8 (x AND 0xff00) OR drop_bit 8 (x AND 0xff0000) OR drop_bit 24 (x AND 0xff000000)"

definition ALIGNUP16 :: "u32 \<Rightarrow> u32" where
  "ALIGNUP16 x = (x + 15) AND NOT 15"

partial_function (option) c_strlen :: "(addr \<Rightarrow> u8) \<Rightarrow> addr \<Rightarrow> nat option" where
  "c_strlen m a = (if m a = 0 then Some 0 else do { n \<leftarrow> c_strlen m (padd a 1); Some (Suc n) })"

declare c_strlen.simps [code]

text \<open>\<open>memcmp(path, addr, strlen(path)) == 0\<close>.\<close>

fun mem_matches :: "(addr \<Rightarrow> u8) \<Rightarrow> addr \<Rightarrow> string \<Rightarrow> bool" where
  "mem_matches m a [] = True"
| "mem_matches m a (c # cs) = (m a = of_char c \<and> mem_matches m (padd a 1) cs)"

definition is_path_ch :: "char \<Rightarrow> bool" where
  "is_path_ch ch = (let n = of_char ch :: nat in
     97 \<le> n \<and> n \<le> 122 \<or> 65 \<le> n \<and> n \<le> 90 \<or> 48 \<le> n \<and> n \<le> 57 \<or>
     ch = CHR ''/'' \<or> ch = CHR ''.'' \<or> ch = CHR ''_'' \<or> ch = CHR ''-'')"

text \<open>
  The loop over the path; \<open>i_old\<close> is the index of the last slash, unset before the first one. It is
  only compared at an index other than 0, after the slash at index 0 has set it.
\<close>

fun filter_loop :: "nat \<Rightarrow> nat option \<Rightarrow> string \<Rightarrow> int" where
  "filter_loop i i_old [] = 0"
| "filter_loop i i_old (c # cs) =
     (if \<not> is_path_ch c then -2
      else if CHR ''/'' \<noteq> c then filter_loop (Suc i) i_old cs
      else if i \<noteq> 0 then (if Some i = i_old then -3 else filter_loop (Suc i) (Some i) cs)
      else filter_loop (Suc i) (Some i) cs)"

definition filter_format :: "string \<Rightarrow> int" where
  "filter_format path =
     (if c_strncmp (length ROMFS_MOUNTPOINT) path ROMFS_MOUNTPOINT \<noteq> 0 then -1 else filter_loop 0 None path)"

definition dirent_word :: "(addr \<Rightarrow> u8) \<Rightarrow> addr \<Rightarrow> nat \<Rightarrow> u32" where
  "dirent_word m a i = U32HTONL (ld32 m (padd a (4 * i)))"

definition dirent_type :: "(addr \<Rightarrow> u8) \<Rightarrow> addr \<Rightarrow> romfh_type" where
  "dirent_type m a = (let t = dirent_word m a 0 AND 7 in
     if t = 0 then ROMFH_HRD else if t = 2 then ROMFH_REG else if t = 1 then ROMFH_DIR else ROMFH_UNKNOW)"

definition romfs_endaddr :: "(addr \<Rightarrow> u8) \<Rightarrow> addr \<Rightarrow> addr option" where
  "romfs_endaddr m rom = (if rom = 0 then None else Some (padd rom (unat (dirent_word m rom 2))))"

definition dirent_hardfh :: "(addr \<Rightarrow> u8) \<Rightarrow> addr \<Rightarrow> u32" where
  "dirent_hardfh m a = dirent_word m a 0 AND 0xFFFFFFF0"

definition dirent_childaddr :: "(addr \<Rightarrow> u8) \<Rightarrow> addr \<Rightarrow> u32" where
  "dirent_childaddr m a = dirent_word m a 1 AND 0xFFFFFFF0"

definition dirent_size :: "(addr \<Rightarrow> u8) \<Rightarrow> addr \<Rightarrow> u32" where
  "dirent_size m a = dirent_word m a 2"

text \<open>The address behind the name that starts at \<open>a + 16\<close>, rounded up to 16 bytes.\<close>

definition behind_name :: "(addr \<Rightarrow> u8) \<Rightarrow> addr \<Rightarrow> addr option" where
  "behind_name m a = do {
     n \<leftarrow> c_strlen m (padd a 16);
     Some (padd (padd a (unat (ALIGNUP16 (word_of_nat n + 1)))) 16)
   }"

section \<open>Looking up a path\<close>

definition name_is :: "(addr \<Rightarrow> u8) \<Rightarrow> addr \<Rightarrow> string \<Rightarrow> bool" where
  "name_is m a path = (mem_matches m (padd a 16) path \<and> m (padd a (16 + length path)) = 0)"

partial_function (option) file_info_loop :: "(addr \<Rightarrow> u8) \<Rightarrow> addr \<Rightarrow> string \<Rightarrow> addr \<Rightarrow> addr \<Rightarrow> (int \<times> addr \<times> addr) option" where
  "file_info_loop m rom path addr_start addr_end =
     (let next = padd rom (unat (dirent_hardfh m addr_start)) in
      if dirent_type m addr_start = ROMFH_DIR \<and> name_is m addr_start path then
        Some (0, addr_start, if dirent_hardfh m addr_start = 0 then addr_end else next)
      else if dirent_type m addr_start = ROMFH_REG \<and> name_is m addr_start path then
        Some (0, addr_start, next)
      else if dirent_type m addr_start = ROMFH_UNKNOW then Some (-1, addr_start, addr_end)
      else if next \<ge> addr_end then Some (-1, addr_start, addr_end)
      else file_info_loop m rom path next addr_end)"

declare file_info_loop.simps [code]

text \<open>The addresses are written back only on success.\<close>

definition file_info :: "(addr \<Rightarrow> u8) \<Rightarrow> addr \<Rightarrow> string \<Rightarrow> addr \<Rightarrow> addr \<Rightarrow> (int \<times> addr \<times> addr) option" where
  "file_info m rom path addr_start addr_end =
     (if ROMFS_MAX_NAME_LEN < length path then Some (-1, addr_start, addr_end)
      else do {
        s \<leftarrow> if addr_start = rom then behind_name m rom else Some addr_start;
        (ret, s, e) \<leftarrow> file_info_loop m rom path s addr_end;
        Some (if ret = 0 then (0, s, e) else (ret, addr_start, addr_end))
      })"

text \<open>
  The loop over the components. \<open>name\<close> holds 65 bytes: a directory name that does not fit with its
  terminating 0 is copied beyond the end of it, or left without one.
\<close>

function dirent_loop :: "(addr \<Rightarrow> u8) \<Rightarrow> addr \<Rightarrow> bool \<Rightarrow> addr \<Rightarrow> addr \<Rightarrow> string \<Rightarrow> (int \<times> addr \<times> addr) option" where
  "dirent_loop m rom need_enter_child addr_start addr_end p_name =
     (if p_name = [] then Some (0, addr_start, addr_end)
      else let p_ret = dropWhile (\<lambda>c. c \<noteq> CHR ''/'') p_name;
               child = padd rom (unat (dirent_childaddr m addr_start)) in
        if need_enter_child \<and> addr_start = child then Some (-2, addr_start, addr_end)
        else let addr_start = (if need_enter_child then child else addr_start) in
          if p_ret = [] then
            if length p_name > ROMFS_MAX_NAME_LEN then Some (-1, addr_start, addr_end)
            else do {
              (ret, s, e) \<leftarrow> file_info m rom p_name addr_start addr_end;
              Some (if ret \<noteq> 0 then (-1, s, e) else (0, s, e))
            }
          else let name = takeWhile (\<lambda>c. c \<noteq> CHR ''/'') p_name in
            if length name > ROMFS_MAX_NAME_LEN then None
            else (case file_info m rom name addr_start addr_end of
                None \<Rightarrow> None
              | Some (ret, s, e) \<Rightarrow> if ret \<noteq> 0 then Some (-1, s, e) else dirent_loop m rom True s e (tl p_ret)))"
  by pat_completeness auto

termination
proof (relation "measure (\<lambda>(m, rom, n, s, e, p). length p)", goal_cases)
  case (2 m rom n s e p p_ret child s' name x ret y s2 e2)
  have "0 < length p_ret" "length p_ret \<le> length p"
    using 2 length_dropWhile_le [of "\<lambda>c. c \<noteq> CHR ''/''" p] by simp_all
  then have "length (tl p_ret) < length p" by (simp only: length_tl)
  then show ?case by simp
qed simp

declare dirent_loop.simps [simp del]

definition dirent_file :: "(addr \<Rightarrow> u8) \<Rightarrow> addr \<Rightarrow> string \<Rightarrow> (int \<times> addr \<times> addr) option" where
  "dirent_file m rom path =
     (if length path < length ROMFS_MOUNTPOINT \<or> take (length ROMFS_MOUNTPOINT) path \<noteq> ROMFS_MOUNTPOINT then Some (-1, 0, 0)
      else let p_name = drop (length ROMFS_MOUNTPOINT) path in
        if p_name \<noteq> [] \<and> hd p_name \<noteq> CHR ''/'' then Some (-1, 0, 0)
        else do {
          e \<leftarrow> romfs_endaddr m rom;
          dirent_loop m rom False rom e (tl p_name)
        })"

section \<open>Files\<close>

definition set_file :: "addr \<Rightarrow> ptr \<Rightarrow> u32 \<Rightarrow> 'd vfs \<Rightarrow> 'd vfs" where
  "set_file fp a off v = v\<lparr>files := (files v)(fp := (files v fp)\<lparr>f_arg := a, f_offset := off\<rparr>)\<rparr>"

definition romfs_open :: "addr \<Rightarrow> string \<Rightarrow> int \<Rightarrow> 'x romfs \<Rightarrow> (int \<times> 'x romfs) option" where
  "romfs_open fp path flags v =
     (if romfs_root (dev v) = 0 then Some (-1, v)
      else if filter_format path \<noteq> 0 then Some (-1, v)
      else do {
        (ret, start_addr, end_addr) \<leftarrow> dirent_file (flash (dev v)) (romfs_root (dev v)) path;
        if ret \<noteq> 0 then Some (-2, v) else Some (0, set_file fp (Some start_addr) 0 v)
      })"

definition romfs_close :: "addr \<Rightarrow> 'x romfs \<Rightarrow> (int \<times> 'x romfs) option" where
  "romfs_close fp v = Some (-1, set_file fp NULL 0 v)"

definition c_memcpy :: "(addr \<Rightarrow> u8) \<Rightarrow> addr \<Rightarrow> (addr \<Rightarrow> u8) \<Rightarrow> addr \<Rightarrow> nat \<Rightarrow> addr \<Rightarrow> u8" where
  "c_memcpy dst d src s n = (\<lambda>a. if d \<le> a \<and> a < d + n then src (padd s (a - d)) else dst a)"

definition romfs_read :: "addr \<Rightarrow> addr \<Rightarrow> u32 \<Rightarrow> 'x romfs \<Rightarrow> (int \<times> 'x romfs) option" where
  "romfs_read fp buf nbytes v = do {
     a \<leftarrow> f_arg (files v fp);
     payload_buf \<leftarrow> behind_name (flash (dev v)) a;
     let payload_size = dirent_size (flash (dev v)) a;
     let offset = f_offset (files v fp);
     if offset \<ge> payload_size then Some (0, v)
     else do {
       let len = (if offset + nbytes < payload_size then nbytes else payload_size - offset);
       let mem = c_memcpy (ram (dev v)) buf (flash (dev v)) (padd payload_buf (unat offset)) (unat len);
       let off' = (if offset + nbytes < payload_size then offset + len else payload_size);
       Some (sint len, set_file fp (Some a) off' (v\<lparr>dev := (dev v)\<lparr>ram := mem\<rparr>\<rparr>))
     }
   }"

definition romfs_ioctl :: "addr \<Rightarrow> int \<Rightarrow> u32 \<Rightarrow> 'x romfs \<Rightarrow> (int \<times> 'x romfs) option" where
  "romfs_ioctl fp cmd arg v =
     (if arg = 0 then Some (-2, v)
      else if cmd = IOCTL_ROMFS_GET_FILEBUF then do {
        a \<leftarrow> f_arg (files v fp);
        b \<leftarrow> behind_name (flash (dev v)) a;
        Some (0, v\<lparr>dev := (dev v)\<lparr>romfs_filebufs := (romfs_filebufs (dev v))(unat arg :=
          \<lparr>fb_buf = b, fb_bufsize = dirent_size (flash (dev v)) a\<rparr>)\<rparr>\<rparr>)
      }
      else Some (-3, v))"

text \<open>
  \<open>off_t\<close> is a \<open>long\<close> of 32 bits; a sum with an unsigned operand is computed modulo \<open>2\<^sup>3\<^sup>2\<close> and read back as
  signed.
\<close>

definition romfs_lseek :: "addr \<Rightarrow> int \<Rightarrow> int \<Rightarrow> 'x romfs \<Rightarrow> (int \<times> 'x romfs) option" where
  "romfs_lseek fp off whence v = do {
     a \<leftarrow> f_arg (files v fp);
     let payload_size = dirent_size (flash (dev v)) a;
     let tmp = (if whence = SEEK_SET then if off < 0 then Inl (-2) else Inr off
       else if whence = SEEK_END then if off > 0 then Inl (-3) else Inr (sint (word_of_int off + payload_size))
       else if whence = SEEK_CUR then Inr (sint (word_of_int off + f_offset (files v fp)))
       else Inl (-4));
     case tmp of
       Inl err \<Rightarrow> Some (err, v)
     | Inr tmp \<Rightarrow>
         if tmp < 0 \<or> tmp > uint payload_size then Some (-5, v)
         else Some (tmp, set_file fp (Some a) (word_of_int tmp) v)
   }"

definition romfs_stat :: "addr \<Rightarrow> string \<Rightarrow> addr \<Rightarrow> 'x romfs \<Rightarrow> (int \<times> 'x romfs) option" where
  "romfs_stat fp path st v = do {
     let m = flash (dev v);
     (res, start_addr, end_addr) \<leftarrow> dirent_file m (romfs_root (dev v)) path;
     let put = (\<lambda>s. v\<lparr>dev := (dev v)\<lparr>stats := (stats (dev v))(st := s)\<rparr>\<rparr>);
     let old = stats (dev v) st;
     if res \<noteq> 0 then Some (-1, v)
     else if start_addr = romfs_root (dev v) then Some (0, put (old\<lparr>st_size := 0\<rparr>))
     else if dirent_type m start_addr = ROMFH_DIR then Some (0, put (old\<lparr>st_size := 0, st_mode := S_IFDIR\<rparr>))
     else if dirent_type m start_addr = ROMFH_REG then
       Some (0, put (old\<lparr>st_size := dirent_size m start_addr, st_mode := S_IFREG\<rparr>))
     else Some (-2, v)
   }"

section \<open>Directories\<close>

definition romfs_opendir :: "addr \<Rightarrow> string \<Rightarrow> 'x romfs \<Rightarrow> (ptr \<times> 'x romfs) option" where
  "romfs_opendir fp path v =
     (let m = flash (dev v); rom = romfs_root (dev v) in
      if rom = 0 then Some (NULL, v)
      else let (dp, v) = pvPortMalloc v in
        (case dp of
          None \<Rightarrow> Some (NULL, v)
        | Some d \<Rightarrow>
            let put = (\<lambda>x. v\<lparr>dev := (dev v)\<lparr>romfs_dirs := (romfs_dirs (dev v))(d := x)\<rparr>\<rparr>);
                dir0 = \<lparr>dir_start_addr = 0, dir_end_addr = 0, dir_cur_addr = 0, d_name = []\<rparr> in
            do {
              (res, start_addr, end_addr) \<leftarrow> dirent_file m rom path;
              if res = 0 then
                if start_addr = rom then do {
                  s \<leftarrow> behind_name m rom;
                  Some (Some d, put (dir0\<lparr>dir_start_addr := s, dir_end_addr := end_addr\<rparr>))
                }
                else if dirent_childaddr m start_addr = 0 then Some (NULL, put dir0)
                else Some (Some d, put (dir0\<lparr>dir_start_addr := padd rom (unat (dirent_childaddr m start_addr)), dir_end_addr := end_addr\<rparr>))
              else Some (NULL, put dir0)
            }))"

text \<open>The inner loop of \<open>romfs_readdir\<close> skips hard links; \<open>False\<close> is the return of \<open>NULL\<close>.\<close>

partial_function (option) readdir_skip :: "(addr \<Rightarrow> u8) \<Rightarrow> addr \<Rightarrow> addr \<Rightarrow> addr \<Rightarrow> addr \<Rightarrow> (bool \<times> addr) option" where
  "readdir_skip m rom s e cur =
     (if cur \<ge> e \<or> cur < s then Some (False, cur)
      else if dirent_hardfh m cur = 0 then Some (True, cur)
      else if cur = 0 then Some (False, cur)
      else if dirent_type m cur = ROMFH_DIR \<or> dirent_type m cur = ROMFH_REG then Some (True, cur)
      else readdir_skip m rom s e (padd rom (unat (dirent_hardfh m cur))))"

declare readdir_skip.simps [code]

text \<open>\<open>strncpy\<close> of at most 64 bytes of a name.\<close>

fun c_strncpy :: "(addr \<Rightarrow> u8) \<Rightarrow> addr \<Rightarrow> nat \<Rightarrow> string" where
  "c_strncpy m a 0 = []"
| "c_strncpy m a (Suc n) = (if m a = 0 then [] else char_of (unat (m a)) # c_strncpy m (padd a 1) n)"

partial_function (option) readdir_loop :: "(addr \<Rightarrow> u8) \<Rightarrow> addr \<Rightarrow> romfs_dir_t \<Rightarrow> (bool \<times> romfs_dir_t) option" where
  "readdir_loop m rom dp = do {
     (found, cur) \<leftarrow> if dir_cur_addr dp = 0 then Some (True, dir_start_addr dp)
       else readdir_skip m rom (dir_start_addr dp) (dir_end_addr dp) (dir_cur_addr dp);
     if \<not> found then Some (False, dp\<lparr>dir_cur_addr := cur\<rparr>)
     else do {
       let name = c_strncpy m (padd cur 16) ROMFS_MAX_NAME_LEN;
       let dp = dp\<lparr>d_name := name, dir_cur_addr :=
         (if dirent_hardfh m cur = 0 then dir_end_addr dp else padd rom (unat (dirent_hardfh m cur)))\<rparr>;
       if name = ''..'' \<or> name = ''.'' then readdir_loop m rom dp else Some (True, dp)
     }
   }"

declare readdir_loop.simps [code]

text \<open>The entry returned is part of the directory stream.\<close>

definition romfs_readdir :: "addr \<Rightarrow> addr \<Rightarrow> 'x romfs \<Rightarrow> (ptr \<times> 'x romfs) option" where
  "romfs_readdir fp d v = do {
     (found, dp) \<leftarrow> readdir_loop (flash (dev v)) (romfs_root (dev v)) (romfs_dirs (dev v) d);
     Some (if found then Some d else NULL, v\<lparr>dev := (dev v)\<lparr>romfs_dirs := (romfs_dirs (dev v))(d := dp)\<rparr>\<rparr>)
   }"

definition romfs_closedir :: "addr \<Rightarrow> addr \<Rightarrow> 'x romfs \<Rightarrow> (int \<times> 'x romfs) option" where
  "romfs_closedir fp d v = Some (0, v)"

section \<open>Operation table and mounting\<close>

definition romfs_ops :: "('x romfs_dev_scheme) fs_ops" where
  "romfs_ops = \<lparr>fs_open = Some romfs_open, fs_close = Some romfs_close, fs_read = Some romfs_read, fs_write = None,
     fs_lseek = Some romfs_lseek, fs_sync = None, fs_stat = Some romfs_stat, fs_unlink = None, fs_rename = None,
     fs_opendir = Some romfs_opendir, fs_readdir = Some romfs_readdir, fs_closedir = Some romfs_closedir,
     fs_mkdir = None, fs_rmdir = None, fs_rewinddir = None, fs_telldir = None, fs_seekdir = None,
     fs_ioctl = Some romfs_ioctl, fs_statfs = None, fs_access = None\<rparr>"

text \<open>
  \<open>mtd\<close> is what \<open>bl_mtd_open\<close> of the partition and \<open>bl_mtd_info\<close> give: the error of opening, or the address
  the partition is mapped at.
\<close>

definition romfs_mount :: "int + addr \<Rightarrow> 'x romfs \<Rightarrow> int \<times> 'x romfs" where
  "romfs_mount mtd v = (case mtd of
      Inl err \<Rightarrow> (-1, v)
    | Inr xip_addr \<Rightarrow>
        if xip_addr = 0 then (-1, v)
        else if \<not> mem_matches (flash (dev v)) xip_addr ''-rom1fs-'' then (-1, v)
        else (0, v\<lparr>dev := (dev v)\<lparr>romfs_root := xip_addr\<rparr>\<rparr>))"

definition romfs_register :: "int + addr \<Rightarrow> ptr \<Rightarrow> 'x romfs \<Rightarrow> (int \<times> 'x romfs) option" where
  "romfs_register mtd ops v =
     (let (r, v) = romfs_mount mtd v in
      if r \<noteq> 0 then Some (-1, v) else aos_register_fs v (Some ROMFS_MOUNTPOINT) ops NULL)"

end
