(* ===== verification/Vfs_System.thy ===== *)
theory Vfs_System
  imports Vfs_Props Romfs
begin

unbundle bit_operations_syntax

text \<open>
  The file system layer with the drivers of \<open>fs/vfs/device\<close> and with romfs below it: they meet the
  contract of the layer, so every reachable state is consistent.
\<close>

section \<open>The drivers and romfs as providers\<close>

record 'd bl_hal =
  bl_wdg :: "'d wdg_hal"
  bl_pwm :: "'d pwm_hal"
  bl_rtc :: "'d rtc_hal"
  bl_i2c :: "'d i2c_hal"
  bl_spi :: "'d spi_hal"
  bl_gpio :: "'d gpio_hal"

datatype bl_driver = Drv_wdg | Drv_pwm | Drv_rtc | Drv_i2c | Drv_spi | Drv_gpio

text \<open>\<open>sel\<close> says which driver's table lies at an address.\<close>

definition bl_tables :: "('x romfs_dev_scheme) bl_hal \<Rightarrow> (addr \<Rightarrow> bl_driver) \<Rightarrow> ('x romfs_dev_scheme) tables" where
  "bl_tables hal sel = \<lparr>
     file_tables = (\<lambda>a. case sel a of
         Drv_wdg \<Rightarrow> wdg_ops (bl_wdg hal) | Drv_pwm \<Rightarrow> pwm_ops (bl_pwm hal) | Drv_rtc \<Rightarrow> rtc_ops (bl_rtc hal)
       | Drv_i2c \<Rightarrow> i2c_ops (bl_i2c hal) | Drv_spi \<Rightarrow> spi_ops (bl_spi hal) | Drv_gpio \<Rightarrow> gpio_ops (bl_gpio hal)),
     fs_tables = (\<lambda>a. romfs_ops)\<rparr>"

lemma bl_tables_simps [simp]: "fs_tables (bl_tables hal sel) a = romfs_ops"
  "file_tables (bl_tables hal sel) a = (case sel a of
         Drv_wdg \<Rightarrow> wdg_ops (bl_wdg hal) | Drv_pwm \<Rightarrow> pwm_ops (bl_pwm hal) | Drv_rtc \<Rightarrow> rtc_ops (bl_rtc hal)
       | Drv_i2c \<Rightarrow> i2c_ops (bl_i2c hal) | Drv_spi \<Rightarrow> spi_ops (bl_spi hal) | Drv_gpio \<Rightarrow> gpio_ops (bl_gpio hal))"
  by (simp_all add: bl_tables_def)

lemma op_keepsI: "(\<And>h v r v'. g = Some h \<Longrightarrow> h v = Some (r, v') \<Longrightarrow> vfs_keep v v') \<Longrightarrow> op_keeps g"
  by (simp add: op_keeps_def)

lemma dev_only_keep: "dev_only v v' \<Longrightarrow> vfs_keep v v'"
  by (subst dev_only_def [THEN iffD1], assumption) (simp add: vfs_keep_def)

lemma only_snd: "x = (r, v') \<Longrightarrow> dev_only v (snd x) \<Longrightarrow> vfs_keep v v'"
  by (auto dest: dev_only_keep)

lemma driver_ops_keep:
  "op_keeps (map_option (\<lambda>g. g node f) (fo_open (file_tables (bl_tables hal sel) a)))"
  "op_keeps (map_option (\<lambda>g. g f) (fo_close (file_tables (bl_tables hal sel) a)))"
  "op_keeps (map_option (\<lambda>g. g f buf n) (fo_read (file_tables (bl_tables hal sel) a)))"
  "op_keeps (map_option (\<lambda>g. g f buf n) (fo_write (file_tables (bl_tables hal sel) a)))"
  "op_keeps (map_option (\<lambda>g. g f cmd arg) (fo_ioctl (file_tables (bl_tables hal sel) a)))"
  "op_keeps (map_option (\<lambda>g. g f) (fo_sync (file_tables (bl_tables hal sel) a)))"
  by (rule op_keepsI; cases "sel a"; auto simp: wdg_ops_def pwm_ops_def rtc_ops_def i2c_ops_def spi_ops_def gpio_ops_def no_ops_def
      elim!: only_snd intro: driver_ops_only driver_mem_ops_only(1-3) dest: driver_mem_ops_only(4-6) [THEN dev_only_keep])+

lemma set_file_keep: "vfs_keep v (set_file f a n v)"
  by (simp add: vfs_keep_def set_file_def)

lemma set_file_dev_keep: "vfs_keep v (set_file f a n (v\<lparr>dev := d\<rparr>))"
  by (simp add: vfs_keep_def set_file_def)

lemma dev_keep: "vfs_keep v (v\<lparr>dev := d\<rparr>)"
  by (simp add: vfs_keep_def)

lemmas romfs_keeps = set_file_keep set_file_dev_keep dev_keep vfs_keep_refl

lemma romfs_open_keep: "romfs_open f path flags v = Some (r, v') \<Longrightarrow> vfs_keep v v'"
  by (auto simp: romfs_open_def romfs_keeps split: if_splits Option.bind_splits)

lemma romfs_close_keep: "romfs_close f v = Some (r, v') \<Longrightarrow> vfs_keep v v'"
  by (auto simp: romfs_close_def romfs_keeps)

lemma romfs_read_keep: "romfs_read f buf n v = Some (r, v') \<Longrightarrow> vfs_keep v v'"
  by (auto simp: romfs_read_def romfs_keeps Let_def split: if_splits Option.bind_splits)

lemma romfs_ioctl_keep: "romfs_ioctl f cmd arg v = Some (r, v') \<Longrightarrow> vfs_keep v v'"
  by (auto simp: romfs_ioctl_def romfs_keeps split: if_splits Option.bind_splits)

lemma romfs_lseek_keep: "romfs_lseek f off whence v = Some (r, v') \<Longrightarrow> vfs_keep v v'"
  by (auto simp: romfs_lseek_def romfs_keeps Let_def split: if_splits Option.bind_splits sum.splits)

lemma romfs_stat_keep: "romfs_stat f path st v = Some (r, v') \<Longrightarrow> vfs_keep v v'"
  by (auto simp: romfs_stat_def romfs_keeps Let_def split: if_splits Option.bind_splits)

lemma malloc_dev_keep: "pvPortMalloc v = (p, w) \<Longrightarrow> vfs_keep v w \<and> vfs_keep v (w\<lparr>dev := d\<rparr>)"
  by (auto simp: pvPortMalloc_def vfs_keep_def split: list.splits)

lemma romfs_opendir_keep: "romfs_opendir f path v = Some (r, v') \<Longrightarrow> vfs_keep v v'"
  by (auto simp: romfs_opendir_def Let_def dest: malloc_dev_keep split: if_splits Option.bind_splits option.splits prod.splits)

lemma romfs_readdir_keep: "romfs_readdir f d v = Some (r, v') \<Longrightarrow> vfs_keep v v'"
  by (auto simp: romfs_readdir_def romfs_keeps split: if_splits Option.bind_splits)

lemma romfs_closedir_keep: "romfs_closedir f d v = Some (r, v') \<Longrightarrow> vfs_keep v v'"
  by (auto simp: romfs_closedir_def)

lemmas romfs_ops_keep = romfs_open_keep romfs_close_keep romfs_read_keep romfs_ioctl_keep romfs_lseek_keep romfs_stat_keep
  romfs_opendir_keep romfs_readdir_keep romfs_closedir_keep

interpretation bl: vfs_driver "bl_tables hal sel" for hal :: "('x romfs_dev_scheme) bl_hal" and sel
  by unfold_locales (rule driver_ops_keep | rule op_keepsI, auto simp: romfs_ops_def intro: romfs_ops_keep)+

end
