(* ===== verification/Vfs_Calls.thy ===== *)
theory Vfs_Calls
  imports Vfs_System
begin

text \<open>
  What the system calls promise their callers: the descriptors they hand out and take back, which
  node answers a path, when a node can be removed, when a device is switched on and off, and that
  every state the calls lead to is consistent.
\<close>

section \<open>Reachable states\<close>

text \<open>The state before \<open>vfs_init\<close>: no tables, and no node has users.\<close>

definition vfs_boot :: "'d vfs \<Rightarrow> bool" where
  "vfs_boot v \<longleftrightarrow> g_vfs_mutex v = None \<and> inode_rb_tree v = None \<and> files_handle_dev v = None \<and>
     (\<forall>n. i_refs (inodes v n) = 0) \<and> distinct (filter (\<lambda>p. p \<noteq> NULL) (mallocs v)) \<and> Some 0 \<notin> set (mallocs v)"

lemma open_files_init: "open_files (v\<lparr>files_handle_dev := Some \<lparr>file_rb_tree = Some rb_tree_init, fd_bitmap = b\<rparr>\<rparr>) = []"
  by (simp add: open_files_def)

lemma fd_bit_zero: "i < 64 \<Longrightarrow> \<not> fd_bit [0, 0] i"
  by (cases "i < 32") (simp_all add: fd_bit_iff nth_Cons')

lemma vfs_init_result:
  assumes "vfs_boot v" and "vfs_init mutex v = (0, v')"
  obtains a b c ms where "mallocs v = Some a # Some b # Some c # ms"
    "v' = v\<lparr>g_vfs_mutex := Some False, mallocs := ms, inode_rb_tree := Some rb_tree_init,
      files_handle_dev := Some \<lparr>file_rb_tree = Some rb_tree_init, fd_bitmap = replicate FILE_BITMAP_NUM 0\<rparr>\<rparr>"
proof -
  have n: "g_vfs_mutex v = None" "inode_rb_tree v = None" "files_handle_dev v = None" using assms(1) by (auto simp: vfs_boot_def)
  have m: "mutex" using assms(2) n by (auto simp: vfs_init_def split: if_splits)
  have create: "rb_tree_create w = (case mallocs w of Some a # ms \<Rightarrow> (Some rb_tree_init, w\<lparr>mallocs := ms\<rparr>) | _ \<Rightarrow> (None, w\<lparr>mallocs := tl (mallocs w)\<rparr>))"
    for w :: "'a vfs" by (simp add: rb_tree_create_def pvPortMalloc_def split: list.split option.split)
  obtain a ms1 where 1: "mallocs v = Some a # ms1"
    using assms(2) n m by (cases "mallocs v"; cases "hd (mallocs v)") (auto simp: vfs_init_def inode_init_def create Let_def)
  obtain b ms2 where 2: "ms1 = Some b # ms2"
    using assms(2) n m 1 by (cases ms1; cases "hd ms1") (auto simp: vfs_init_def inode_init_def create file_init_def pvPortMalloc_def)
  obtain c ms where 3: "ms2 = Some c # ms"
    using assms(2) n m 1 2 by (cases ms2; cases "hd ms2") (auto simp: vfs_init_def inode_init_def create file_init_def pvPortMalloc_def)
  show thesis
    using that [of a b c ms] assms(2) n m 1 2 3
    by (auto simp: vfs_init_def inode_init_def create file_init_def pvPortMalloc_def VFS_SUCCESS_def)
qed

lemma vfs_init_inv:
  assumes "vfs_boot v" and "vfs_init mutex v = (0, v')"
  shows "vfs_inv v'"
proof -
  obtain a b c ms where m: "mallocs v = Some a # Some b # Some c # ms" and
    v': "v' = v\<lparr>g_vfs_mutex := Some False, mallocs := ms, inode_rb_tree := Some rb_tree_init,
      files_handle_dev := Some \<lparr>file_rb_tree = Some rb_tree_init, fd_bitmap = replicate FILE_BITMAP_NUM 0\<rparr>\<rparr>"
    by (rule vfs_init_result [OF assms])
  have o: "open_files v' = []" "registered v' = []" by (simp_all add: v' open_files_def registered_def)
  have r: "replicate FILE_BITMAP_NUM (0 :: u32) = [0, 0]" by (simp add: vfs_consts numeral_2_eq_2)
  have "table_ok \<lparr>file_rb_tree = Some rb_tree_init, fd_bitmap = [0, 0]\<rparr> (files v)"
    using fd_bit_zero by (simp add: table_ok_def vfs_consts key_sorted_def rb_tree_init_def [THEN arg_cong [of _ _ rb_size]])
  then have "file_ok v'" using assms(1) o by (simp add: file_ok_def users_def) (simp add: v' r vfs_boot_def)
  moreover have "inode_ok v'" by (rule inode_okI [of _ rb_tree_init]) (simp_all add: v' key_sorted_def names_apart_def rb_tree_init_def [THEN arg_cong [of _ _ rb_size]])
  moreover have "heap_fresh v'" using assms(1) m o by (auto simp: heap_fresh_def vfs_boot_def) (auto simp: v' intro: gr0I)
  ultimately show ?thesis using o by (simp add: vfs_inv_def)
qed

text \<open>One call of the layer; the semaphore is given back by \<open>register\<close> and names fit together.\<close>

inductive vfs_call :: "'d tables \<Rightarrow> 'd vfs \<Rightarrow> 'd vfs \<Rightarrow> bool" for tb where
  open_: "aos_open tb v path flags = Some (r, v') \<Longrightarrow> vfs_call tb v v'"
| close_: "aos_close tb v fd = Some (r, v') \<Longrightarrow> vfs_call tb v v'"
| read_: "aos_read tb v fd buf n = Some (r, v') \<Longrightarrow> vfs_call tb v v'"
| write_: "aos_write tb v fd buf n = Some (r, v') \<Longrightarrow> vfs_call tb v v'"
| ioctl_: "aos_ioctl tb v fd cmd arg = Some (r, v') \<Longrightarrow> vfs_call tb v v'"
| lseek_: "aos_lseek tb v fd off whence = Some (r, v') \<Longrightarrow> vfs_call tb v v'"
| sync_: "aos_sync tb v fd = Some (r, v') \<Longrightarrow> vfs_call tb v v'"
| stat_: "aos_stat tb v path st = Some (r, v') \<Longrightarrow> vfs_call tb v v'"
| unlink_: "aos_unlink tb v path = Some (r, v') \<Longrightarrow> vfs_call tb v v'"
| rename_: "aos_rename tb v path path2 = Some (r, v') \<Longrightarrow> vfs_call tb v v'"
| mkdir_: "aos_mkdir tb v path = Some (r, v') \<Longrightarrow> vfs_call tb v v'"
| rmdir_: "aos_rmdir tb v path = Some (r, v') \<Longrightarrow> vfs_call tb v v'"
| access_: "aos_access tb v path amode = Some (r, v') \<Longrightarrow> vfs_call tb v v'"
| statfs_: "aos_statfs tb v path buf = Some (r, v') \<Longrightarrow> vfs_call tb v v'"
| opendir_: "aos_opendir tb v path = Some (p, v') \<Longrightarrow> vfs_call tb v v'"
| closedir_: "aos_closedir tb v dir = Some (r, v') \<Longrightarrow> vfs_call tb v v'"
| readdir_: "aos_readdir tb v dir = Some (p, v') \<Longrightarrow> vfs_call tb v v'"
| rewinddir_: "aos_rewinddir tb v dir = Some (u, v') \<Longrightarrow> vfs_call tb v v'"
| telldir_: "aos_telldir tb v dir = Some (r, v') \<Longrightarrow> vfs_call tb v v'"
| seekdir_: "aos_seekdir tb v dir loc = Some (u, v') \<Longrightarrow> vfs_call tb v v'"
| register_: "register_node ty v (Some path) ops arg = Some (r, v') \<Longrightarrow> False \<notin> set (gives v) \<Longrightarrow> name_fits v ty path \<Longrightarrow> vfs_call tb v v'"
| unregister_: "unregister_node v (Some path) = Some (r, v') \<Longrightarrow> nul_free path \<Longrightarrow> vfs_call tb v v'"

lemma vfs_call_inv: "vfs_call (bl_tables hal sel) v v' \<Longrightarrow> vfs_inv v \<Longrightarrow> vfs_inv v'"
proof (induction rule: vfs_call.induct)
  case (register_ ty v path ops arg r v')
  then show ?case by (auto intro: register_inv)
next
  case (unregister_ v path r v')
  then show ?case by (auto intro: unregister_inv)
qed (auto intro: bl.open_inv bl.close_inv bl.fd_calls_inv bl.path_calls_inv bl.dir_calls_inv bl.statfs_inv bl.opendir_inv bl.closedir_inv)

section \<open>Descriptors handed out\<close>

text \<open>\<open>fd\<close> is the number the next descriptor has: the lowest one that is not in use.\<close>

definition lowest_free :: "'d vfs \<Rightarrow> int \<Rightarrow> bool" where
  "lowest_free v fd \<longleftrightarrow> 2 \<le> fd \<and> fd < 62 \<and> (\<forall>a\<in>set (open_files v). f_fd (files v a) \<noteq> fd) \<and>
     (\<forall>d. 2 \<le> d \<and> d < fd \<longrightarrow> (\<exists>a\<in>set (open_files v). f_fd (files v a) = d))"

lemma lowest_freeI:
  assumes "fd < 60" and "int fd + 2 \<notin> file_key (files v) ` set (open_files v)"
    and "\<forall>i<fd. int i + 2 \<in> file_key (files v) ` set (open_files v)"
  shows "lowest_free v (int fd + 2)"
  unfolding lowest_free_def
proof (intro conjI allI impI ballI)
  fix d :: int
  assume "2 \<le> d \<and> d < int fd + 2"
  then have "nat (d - 2) < fd" "int (nat (d - 2)) + 2 = d" by auto
  then have "d \<in> file_key (files v) ` set (open_files v)" using assms(3) by (metis (no_types))
  then show "\<exists>a\<in>set (open_files v). f_fd (files v a) = d" by (auto simp: file_key_def)
qed (use assms(1,2) in \<open>force simp: file_key_def\<close>)+

lemma new_file_result:
  assumes "vfs_inv v" and "new_file v n = Some (p, v')"
  shows "(p = NULL \<and> set (open_files v') = set (open_files v)) \<or>
    (\<exists>f. p = Some f \<and> f \<notin> set (open_files v) \<and> set (open_files v') = insert f (set (open_files v)) \<and>
      f_node (files v' f) = Some n \<and> lowest_free v (f_fd (files v' f)) \<and> dev v' = dev v \<and>
      inodes v' n = (inodes v n)\<lparr>i_refs := i_refs (inodes v n) + 1\<rparr>)"
proof -
  have ok: "file_ok v" "heap_fresh v" using assms(1) by (auto simp: vfs_inv_def)
  consider "length (open_files v) = 60" | "length (open_files v) < 60" using open_files_count(2) [OF ok(1)] by linarith
  then show ?thesis
  proof cases
    case 1
    then show ?thesis using new_file_full [OF ok(1)] assms by simp
  next
    case 2
    obtain f ms where m: "mallocs v = Some f # ms" by (rule new_file_malloc [OF ok(1) 2 assms(2)])
    have f: "f \<noteq> 0" "f \<notin> set (open_files v)" using ok(2) m by (auto simp: heap_fresh_def)
    show ?thesis
    proof (cases "ms = [] \<or> hd ms = NULL")
      case True
      from new_file_nomem [OF ok(1) 2 m True, of n] assms(2) show ?thesis by (auto simp: open_files_def)
    next
      case False
      then obtain m' ms' where "ms = Some m' # ms'" by (cases ms) auto
      then have m2: "mallocs v = Some f # Some m' # ms'" using m by simp
      from new_file_ok [OF ok(1) 2 m2, of n] f assms(2) show ?thesis by (auto intro: lowest_freeI simp: vfs_rest_def)
    qed
  qed
qed

lemma with_new_file:
  assumes "vfs_inv v" and "node \<in> set (registered v)"
    and "(do { (q, v) \<leftarrow> new_file v node; let v = snd (xSemaphoreGive v); case q of None \<Rightarrow> Some (e, v) | Some f \<Rightarrow> K f v }) = Some (r, v')"
  shows "(r = e \<and> set (open_files v') = set (open_files v)) \<or>
    (\<exists>f w. K f w = Some (r, v') \<and> vfs_inv w \<and> f \<notin> set (open_files v) \<and> set (open_files w) = insert f (set (open_files v)) \<and>
      f_node (files w f) = Some node \<and> lowest_free v (f_fd (files w f)) \<and> dev w = dev v \<and>
      inodes w node = (inodes v node)\<lparr>i_refs := i_refs (inodes v node) + 1\<rparr>)"
proof -
  obtain q v1 where nf: "new_file v node = Some (q, v1)" using assms(3) by (auto split: Option.bind_splits)
  have i: "inodes (snd (xSemaphoreGive v1)) = inodes v1" "dev (snd (xSemaphoreGive v1)) = dev v1" by (simp_all add: xSemaphoreGive_def split: list.split bool.split)
  show ?thesis
    using assms(3) nf new_file_result [OF assms(1) nf] new_file_inv [OF assms(1) nf assms(2)] i
    by (cases q) (auto intro!: exI [of _ "snd (xSemaphoreGive v1)"])
qed

text \<open>A successful open leaves a new file that is found under the descriptor returned.\<close>

definition opened :: "'d vfs \<Rightarrow> string \<Rightarrow> int \<Rightarrow> 'd vfs \<Rightarrow> bool" where
  "opened v path fd v' \<longleftrightarrow> (\<exists>f node. f \<notin> set (open_files v) \<and> set (open_files v') = insert f (set (open_files v)) \<and>
     lowest_free v fd \<and> f_fd (files v' f) = fd \<and> get_file v' fd = Some (Some f) \<and>
     f_node (files v' f) = Some node \<and> node \<in> set (registered v) \<and> answers (inodes v node) path)"

lemma get_file_found: "file_ok v \<Longrightarrow> f \<in> set (open_files v) \<Longrightarrow> get_file v (f_fd (files v f)) = Some (Some f)"
proof -
  assume a: "file_ok v" "f \<in> set (open_files v)"
  then have "0 \<le> f_fd (files v f)" by (auto elim!: file_ok_elim)
  from get_file_iff [OF a(1) this] a(2) show ?thesis by auto
qed

text \<open>The course of an open that changes the table: the node, the new file, and the driver's part.\<close>

definition open_op :: "'d tables \<Rightarrow> addr \<Rightarrow> addr \<Rightarrow> string \<Rightarrow> int \<Rightarrow> 'd vfs \<Rightarrow> (int \<times> 'd vfs) option" where
  "open_op tb node f path flags w = dispatch tb w node (\<lambda>tab. map_option (\<lambda>g. g f path flags) (fs_open tab))
     (\<lambda>tab. map_option (\<lambda>g. g node f) (fo_open tab)) VFS_SUCCESS"

lemma open_op_keep: "open_op (bl_tables hal sel) node f path flags w = Some (r, w') \<Longrightarrow> vfs_keep w w'"
  unfolding open_op_def by (erule dispatch_keep) (rule bl.fs_file_ops_keep, rule bl.file_ops_keep)

lemma open_course:
  assumes "vfs_inv v" and "aos_open (bl_tables hal sel) v (Some path) flags = Some (r, v')"
  obtains "set (open_files v') = set (open_files v)"
  | node f w where "inode_open v path = Some node" "f \<notin> set (open_files v)" "set (open_files w) = insert f (set (open_files v))"
      "vfs_inv w" "f_node (files w f) = Some node" "lowest_free v (f_fd (files w f))" "dev w = dev v"
      "inodes w node = (inodes v node)\<lparr>i_flags := flags, i_refs := i_refs (inodes v node) + 1\<rparr>"
      "open_op (bl_tables hal sel) node f path flags w = Some (VFS_SUCCESS, v')" "r = f_fd (files v' f)"
proof (cases "length path > PATH_MAX")
  case True
  then show thesis using assms that(1) by (simp add: aos_open_def)
next
  case False
  obtain ok v1 where t: "xSemaphoreTake v = Some (ok, v1)" using assms(2) False by (auto simp: aos_open_def split: Option.bind_splits)
  note x = xSemaphoreTake_inv [OF t]
  have dv: "dev v1 = dev v" by (rule xSemaphoreTake_cases [OF t]) simp_all
  show thesis
  proof (cases "ok \<and> inode_open v1 path \<noteq> None")
    case f: False
    then have "set (open_files v') = set (open_files v)" using assms(2) False t x by (auto simp: aos_open_def split: if_splits)
    then show thesis by (rule that(1))
  next
    case True
    then obtain node where n: "ok" "inode_open v1 path = Some node" by blast
    define v2 where "v2 = v1\<lparr>inodes := (inodes v1)(node := (inodes v1 node)\<lparr>i_flags := flags\<rparr>)\<rparr>"
    have i2: "vfs_inv v2" "node \<in> set (registered v2)"
      using x(1) assms(1) flags_inv [of v1 node flags] inode_open_in [OF n(2)] by (simp_all add: v2_def registered_def)
    have of: "open_files v2 = open_files v" "files v2 = files v" "dev v2 = dev v" "inodes v2 node = (inodes v node)\<lparr>i_flags := flags\<rparr>"
      using x(2,3,5) dv by (simp_all add: v2_def open_files_def)
    have "(do { (q, v) \<leftarrow> new_file v2 node; let v = snd (xSemaphoreGive v); case q of None \<Rightarrow> Some (- ENFILE, v) | Some f \<Rightarrow>
        do { (ret, v) \<leftarrow> open_op (bl_tables hal sel) node f path flags v;
             if ret \<noteq> VFS_SUCCESS then do { v \<leftarrow> del_file v f; Some (ret, v) } else Some (get_fd v f, v) } }) = Some (r, v')"
      unfolding open_op_def using assms(2) False t n by (simp add: aos_open_def v2_def)
    from with_new_file [OF i2 this] show thesis
    proof (elim disjE exE conjE)
      fix f w
      assume K: "(do { (ret, v) \<leftarrow> open_op (bl_tables hal sel) node f path flags w;
          if ret \<noteq> VFS_SUCCESS then do { v \<leftarrow> del_file v f; Some (ret, v) } else Some (get_fd v f, v) }) = Some (r, v')"
        and w: "vfs_inv w" "f \<notin> set (open_files v2)" "set (open_files w) = insert f (set (open_files v2))" "f_node (files w f) = Some node"
          "lowest_free v2 (f_fd (files w f))" "dev w = dev v2" "inodes w node = (inodes v2 node)\<lparr>i_refs := i_refs (inodes v2 node) + 1\<rparr>"
      obtain r1 w1 where d: "open_op (bl_tables hal sel) node f path flags w = Some (r1, w1)" using K by (auto split: Option.bind_splits)
      note k = open_op_keep [OF d]
      show thesis
      proof (cases "r1 = VFS_SUCCESS")
        case True
        then show thesis using K d w of n(2) x(7) by (intro that(2) [of node f w]) (auto simp: lowest_free_def get_fd_def)
      next
        case False
        then obtain w2 where "del_file w1 f = Some w2" "v' = w2" using K d by (auto split: Option.bind_splits)
        then show thesis using del_file_ok [of w1 f] vfs_keep_tables(1) [OF k] vfs_keep_inv [OF w(1) k] w(2,3) of
          by (intro that(1)) (auto simp: vfs_inv_def)
      qed
    qed (use of that(1) in auto)
  qed
qed

lemma open_result:
  assumes "vfs_inv v" and "aos_open (bl_tables hal sel) v (Some path) flags = Some (r, v')" and "nul_free path"
  shows "set (open_files v') = set (open_files v) \<or> opened v path r v'"
proof (rule open_course [OF assms(1,2)])
  fix node f w
  assume w: "inode_open v path = Some node" "f \<notin> set (open_files v)" "set (open_files w) = insert f (set (open_files v))"
      "vfs_inv w" "f_node (files w f) = Some node" "lowest_free v (f_fd (files w f))" and
    d: "open_op (bl_tables hal sel) node f path flags w = Some (VFS_SUCCESS, v')" "r = f_fd (files v' f)"
  note k = open_op_keep [OF d(1)]
  note k1 = vfs_keep_tables(1) [OF k] vfs_keep_inv [OF w(4) k]
  have fd: "f_fd (files v' f) = f_fd (files w f)" "f_node (files v' f) = Some node" using k w(5) by (auto simp: vfs_keep_def)
  have "get_file v' (f_fd (files v' f)) = Some (Some f)" using k1 w(3) by (intro get_file_found) (auto simp: vfs_inv_def)
  moreover have "node \<in> set (registered v)" "answers (inodes v node) path"
    using inode_open_iff [of v path node] w(1) assms(1,3) by (auto simp: vfs_inv_def)
  ultimately have "opened v path r v'" unfolding opened_def
    using d(2) fd w k1 by (intro exI [of _ f] exI [of _ node]) simp
  then show ?thesis ..
qed simp

text \<open>The course of a close, up to the driver's part.\<close>

definition close_op :: "'d tables \<Rightarrow> addr \<Rightarrow> addr \<Rightarrow> 'd vfs \<Rightarrow> (int \<times> 'd vfs) option" where
  "close_op tb node f v = dispatch tb v node (\<lambda>tab. map_option (\<lambda>g. g f) (fs_close tab)) (\<lambda>tab. map_option (\<lambda>g. g f) (fo_close tab)) VFS_SUCCESS"

lemma close_op_keep: "close_op (bl_tables hal sel) node f w = Some (r, w') \<Longrightarrow> vfs_keep w w'"
  unfolding close_op_def by (erule dispatch_keep) (rule bl.fs_file_ops_keep, rule bl.file_ops_keep)

lemma close_course:
  assumes "vfs_inv v" and "aos_close (bl_tables hal sel) v fd = Some (r, v')"
  obtains "r = - ENOENT" "v' = v" "\<forall>f\<in>set (open_files v). f_fd (files v f) \<noteq> fd"
  | f node r1 v1 ok v2 where "f \<in> set (open_files v)" "f_fd (files v f) = fd" "f_node (files v f) = Some node"
      "close_op (bl_tables hal sel) node f v = Some (r1, v1)" "xSemaphoreTake v1 = Some (ok, v2)"
      "(if \<not> ok then Some (-1, v2) else do { v \<leftarrow> del_file v2 f; Some (r1, snd (xSemaphoreGive v)) }) = Some (r, v')"
proof (cases "get_file v fd = Some NULL")
  case True
  have ok: "file_ok v" using assms(1) by (simp add: vfs_inv_def)
  have ge: "2 \<le> f_fd (files v a)" if "a \<in> set (open_files v)" for a using that by (auto intro: file_ok_elim [OF ok])
  have "\<forall>f\<in>set (open_files v). f_fd (files v f) \<noteq> fd"
    using True ge get_file_iff [OF ok, of fd] by (cases "0 \<le> fd") force+
  then show thesis using assms(2) True that(1) by (simp add: aos_close_def)
next
  case False
  have ok: "file_ok v" using assms(1) by (simp add: vfs_inv_def)
  obtain f node where c: "get_file v fd = Some (Some f)" "f_node (files v f) = Some node"
    "(do { (ret, v) \<leftarrow> close_op (bl_tables hal sel) node f v;
       (ok, v) \<leftarrow> xSemaphoreTake v; if \<not> ok then Some (-1, v) else do { v \<leftarrow> del_file v f; Some (ret, snd (xSemaphoreGive v)) } }) = Some (r, v')"
    using assms(2) False by (auto simp: aos_close_def close_op_def split: option.split_asm Option.bind_split_asm)
  have "0 \<le> fd" using c(1) by (auto simp: get_file_def split: if_splits)
  then have "f \<in> set (open_files v)" "f_fd (files v f) = fd" using get_file_iff [OF ok, of fd] c(1) by auto
  then show thesis using c that(2) by (auto split: Option.bind_split_asm)
qed

lemma close_result:
  assumes "vfs_inv v" and "aos_close (bl_tables hal sel) v fd = Some (r, v')"
  shows "(r = - ENOENT \<and> v' = v \<and> (\<forall>f\<in>set (open_files v). f_fd (files v f) \<noteq> fd)) \<or>
    (\<exists>f\<in>set (open_files v). f_fd (files v f) = fd \<and> (r = -1 \<and> set (open_files v') = set (open_files v) \<or>
      set (open_files v') = set (open_files v) - {f} \<and> get_file v' fd = Some NULL))"
proof (rule close_course [OF assms])
  fix f node r1 v1 ok v2
  assume f: "f \<in> set (open_files v)" "f_fd (files v f) = fd" and d: "close_op (bl_tables hal sel) node f v = Some (r1, v1)"
    and t: "xSemaphoreTake v1 = Some (ok, v2)"
    and K: "(if \<not> ok then Some (-1, v2) else do { v \<leftarrow> del_file v2 f; Some (r1, snd (xSemaphoreGive v)) }) = Some (r, v')"
  have fo: "file_ok v" using assms(1) by (simp add: vfs_inv_def)
  note k = close_op_keep [OF d]
  have i2: "vfs_inv v2" "open_files v2 = open_files v" "files v2 = files v1"
    using vfs_keep_inv [OF assms(1) k] xSemaphoreTake_inv [OF t] vfs_keep_tables(1) [OF k] by auto
  show ?thesis
  proof (cases ok)
    case False
    then show ?thesis using K f i2 by auto
  next
    case True
    then obtain v3 where v3: "del_file v2 f = Some v3" "v' = snd (xSemaphoreGive v3)" using K by (auto split: Option.bind_splits)
    have fd: "f_fd (files v2 a) = f_fd (files v a)" for a using k i2(3) by (simp add: vfs_keep_def)
    have d3: "file_ok v3" "set (open_files v3) = set (open_files v) - {f}" "files v3 = (files v2)(f := (files v2 f)\<lparr>f_node := NULL\<rparr>)"
      using del_file_ok [of v2 f] v3(1) i2 f(1) by (auto simp: vfs_inv_def)
    have gf: "get_file v' fd = get_file v3 fd" using v3(2) by (simp add: get_file_def xSemaphoreGive_def split: list.split bool.split)
    have "2 \<le> fd" using f by (auto intro: file_ok_elim [OF fo])
    then obtain p where p: "get_file v3 fd = Some p" "\<And>g. p = Some g \<longleftrightarrow> g \<in> set (open_files v3) \<and> f_fd (files v3 g) = fd"
      using get_file_iff [OF d3(1), of fd] by auto
    have "p = NULL"
    proof (rule ccontr)
      assume "p \<noteq> NULL"
      then obtain g where "g \<in> set (open_files v)" "g \<noteq> f" "f_fd (files v g) = fd" using p(2) d3(2,3) fd by (auto split: if_splits)
      moreover have "inj_on (file_key (files v)) (set (open_files v))" by (rule file_ok_elim [OF fo]) (metis key_sorted_inj)
      ultimately show False using f by (auto simp: inj_on_def file_key_def)
    qed
    then show ?thesis using f d3(2) v3(2) p(1) gf by auto
  qed
qed simp

section \<open>Switching devices on and off\<close>

definition drv_init :: "('x romfs_dev_scheme) bl_hal \<Rightarrow> bl_driver \<Rightarrow> ptr \<Rightarrow> 'x romfs_dev_scheme \<Rightarrow> int \<times> 'x romfs_dev_scheme" where
  "drv_init hal d = (case d of
     Drv_wdg \<Rightarrow> hal_wdg_init (bl_wdg hal) | Drv_pwm \<Rightarrow> hal_pwm_init_bydev (bl_pwm hal) | Drv_rtc \<Rightarrow> hal_rtc_init (bl_rtc hal)
   | Drv_i2c \<Rightarrow> hal_i2c_init (bl_i2c hal) | Drv_spi \<Rightarrow> hal_spi_init (bl_spi hal) | Drv_gpio \<Rightarrow> hal_gpio_init (bl_gpio hal))"

definition drv_finalize :: "('x romfs_dev_scheme) bl_hal \<Rightarrow> bl_driver \<Rightarrow> addr \<Rightarrow> 'x romfs_dev_scheme \<Rightarrow> int \<times> 'x romfs_dev_scheme" where
  "drv_finalize hal d = (case d of
     Drv_wdg \<Rightarrow> hal_wdg_finalize (bl_wdg hal) | Drv_pwm \<Rightarrow> hal_pwm_finalize_bydev (bl_pwm hal) | Drv_rtc \<Rightarrow> hal_rtc_finalize (bl_rtc hal)
   | Drv_i2c \<Rightarrow> hal_i2c_finalize (bl_i2c hal) | Drv_spi \<Rightarrow> hal_spi_finalize (bl_spi hal) | Drv_gpio \<Rightarrow> hal_gpio_finalize (bl_gpio hal))"

lemma driver_open_close:
  "fo_open (file_tables (bl_tables hal sel) a) = Some (\<lambda>i f v. Some (dev_open (drv_init hal (sel a)) f v))"
  "fo_close (file_tables (bl_tables hal sel) a) = Some (\<lambda>f v. Some (dev_close (drv_finalize hal (sel a)) f v))"
  by (cases "sel a"; simp add: drv_init_def drv_finalize_def wdg_ops_def pwm_ops_def rtc_ops_def i2c_ops_def spi_ops_def gpio_ops_def
      vfs_wdg_open_def vfs_wdg_close_def vfs_pwm_open_def vfs_pwm_close_def vfs_rtc_open_def vfs_rtc_close_def vfs_i2c_open_def vfs_i2c_close_def
      vfs_spi_open_def vfs_spi_close_def vfs_gpio_open_def vfs_gpio_close_def)+

lemma refs_users:
  assumes "vfs_inv v"
  shows "i_refs (inodes v n) + 1 = 1 \<longleftrightarrow> users v n = {}" "f \<in> users v n \<Longrightarrow> i_refs (inodes v n) = 1 \<longleftrightarrow> users v n = {f}"
proof -
  have c: "unat (i_refs (inodes v n)) = card (users v n)" and fin: "finite (users v n)"
    using assms by (auto simp: vfs_inv_def file_ok_def users_def)
  show "i_refs (inodes v n) + 1 = 1 \<longleftrightarrow> users v n = {}" using c fin by (simp add: unat_eq_0 [symmetric])
  have "i_refs (inodes v n) = 1 \<longleftrightarrow> card (users v n) = 1" by (simp add: c [symmetric] word_unat_eq_iff)
  then show "f \<in> users v n \<Longrightarrow> i_refs (inodes v n) = 1 \<longleftrightarrow> users v n = {f}" by (auto simp: card_1_singleton_iff)
qed

lemma open_switches_on:
  assumes "vfs_inv v" and "inode_open v path = Some n" and "\<not> is_fs (inodes v n)" and "i_ops (inodes v n) = Some a"
    and "aos_open (bl_tables hal sel) v (Some path) flags = Some (r, v')" and "set (open_files v') \<noteq> set (open_files v)"
  shows "dev v' = (if users v n = {} then snd (drv_init hal (sel a) (i_arg (inodes v n)) (dev v)) else dev v)"
proof (rule open_course [OF assms(1,5)])
  fix node f w
  assume n: "inode_open v path = Some node" and w: "f_node (files w f) = Some node" "dev w = dev v"
      "inodes w node = (inodes v node)\<lparr>i_flags := flags, i_refs := i_refs (inodes v node) + 1\<rparr>" and
    d: "open_op (bl_tables hal sel) node f path flags w = Some (VFS_SUCCESS, v')"
  have "node = n" using n assms(2) by simp
  with w assms(3,4) d show ?thesis using refs_users(1) [OF assms(1), of n]
    by (auto simp: open_op_def dispatch_def INODE_IS_FS_def is_fs_def driver_open_close dev_open_def on_dev_def split: prod.splits if_splits simp del: bl_tables_simps)
qed (use assms(6) in simp)

lemma close_switches_off:
  assumes "vfs_inv v" and "f \<in> users v n" and "\<not> is_fs (inodes v n)" and "i_ops (inodes v n) = Some a" and "i_arg (inodes v n) = Some d"
    and "aos_close (bl_tables hal sel) v (f_fd (files v f)) = Some (r, v')"
  shows "dev v' = (if users v n = {f} then snd (drv_finalize hal (sel a) d (dev v)) else dev v)"
proof (rule close_course [OF assms(1,6)])
  fix g node r1 v1 ok v2
  assume g: "g \<in> set (open_files v)" "f_fd (files v g) = f_fd (files v f)" "f_node (files v g) = Some node"
    and c: "close_op (bl_tables hal sel) node g v = Some (r1, v1)" and t: "xSemaphoreTake v1 = Some (ok, v2)"
    and K: "(if \<not> ok then Some (-1, v2) else do { v \<leftarrow> del_file v2 g; Some (r1, snd (xSemaphoreGive v)) }) = Some (r, v')"
  have f: "f \<in> set (open_files v)" "f_node (files v f) = Some n" using assms(2) by (auto simp: users_def)
  have "inj_on (file_key (files v)) (set (open_files v))" using assms(1) by (auto simp: vfs_inv_def elim!: file_ok_elim dest: key_sorted_inj)
  then have gf: "g = f" "node = n" using g f by (auto simp: inj_on_def file_key_def)
  note k = close_op_keep [OF c]
  have i2: "vfs_inv v2" "open_files v2 = open_files v"
    using vfs_keep_inv [OF assms(1) k] xSemaphoreTake_inv [OF t] vfs_keep_tables(1) [OF k] by auto
  have d2: "dev v2 = dev v1" by (rule xSemaphoreTake_cases [OF t]) simp_all
  have "dev w = dev v2" if "del_file v2 g = Some w" for w
    using del_file_ok [of v2 g] that i2 g(1) by (auto simp: vfs_inv_def vfs_rest_def)
  moreover have "dev (snd (xSemaphoreGive w)) = dev w" for w :: "'a romfs" by (simp add: xSemaphoreGive_def split: list.split bool.split)
  ultimately have "dev v' = dev v1" using K d2 by (auto split: if_splits Option.bind_splits)
  moreover have "dev v1 = (if users v n = {f} then snd (drv_finalize hal (sel a) d (dev v)) else dev v)"
    using c gf f(2) assms(3-5) refs_users(2) [OF assms(1,2)]
    by (auto simp: close_op_def dispatch_def INODE_IS_FS_def is_fs_def driver_open_close dev_close_def on_dev_def split: prod.splits if_splits simp del: bl_tables_simps)
  ultimately show ?thesis by simp
qed (use assms(2) in \<open>auto simp: users_def\<close>)

section \<open>A sample system\<close>

text \<open>
  A system with a watchdog at \<open>/dev/wdg\<close> and romfs at \<open>/romfs\<close>, after \<open>vfs_init\<close> and the two
  registrations; the properties below are applied to it.
\<close>

definition sample_hal :: "romfs_dev bl_hal" where
  "sample_hal = \<lparr>
     bl_wdg = \<lparr>hal_wdg_init = (\<lambda>p d. (0, d\<lparr>ram := (ram d)(0 := 1)\<rparr>)), hal_wdg_reload = (\<lambda>a d. d), hal_wdg_finalize = (\<lambda>a d. (0, d\<lparr>ram := (ram d)(0 := 0)\<rparr>))\<rparr>,
     bl_pwm = \<lparr>hal_pwm_init_bydev = (\<lambda>p d. (0, d)), hal_pwm_start_bydev = (\<lambda>a d. (0, d)), hal_pwm_stop_bydev = (\<lambda>a d. (0, d)),
       hal_pwm_set_duty_bydev = (\<lambda>a x d. (0, d)), hal_pwm_set_freq_bydev = (\<lambda>a x d. (0, d)), hal_pwm_finalize_bydev = (\<lambda>a d. (0, d))\<rparr>,
     bl_rtc = \<lparr>hal_rtc_init = (\<lambda>p d. (0, d)), hal_rtc_get_time = (\<lambda>a b d. (0, d)), hal_rtc_set_time = (\<lambda>a b d. (0, d)), hal_rtc_finalize = (\<lambda>a d. (0, d))\<rparr>,
     bl_i2c = \<lparr>hal_i2c_init = (\<lambda>p d. (0, d)), hal_i2c_master_recv = (\<lambda>a x b n d. (0, d)), hal_i2c_master_send = (\<lambda>a x b n d. (0, d)), hal_i2c_finalize = (\<lambda>a d. (0, d))\<rparr>,
     bl_spi = \<lparr>hal_spi_init = (\<lambda>p d. (0, d)), hal_spi_send = (\<lambda>a b n d. (0, d)), hal_spi_recv = (\<lambda>a b n d. (0, d)), hal_spi_finalize = (\<lambda>a d. (0, d)),
       hal_spi_set_rwmode = (\<lambda>a x d. (0, d)), hal_spi_set_rwspeed = (\<lambda>a x d. (0, d)), hal_spi_transfer = (\<lambda>a x n d. (0, d))\<rparr>,
     bl_gpio = \<lparr>hal_gpio_init = (\<lambda>p d. (0, d)), hal_gpio_output_high = (\<lambda>a d. (0, d)), hal_gpio_output_low = (\<lambda>a d. (0, d)), hal_gpio_output_toggle = (\<lambda>a d. (0, d)),
       hal_gpio_input_get = (\<lambda>a b d. (0, d)), hal_gpio_pulltype_set = (\<lambda>a x d. (0, d)), hal_gpio_finalize = (\<lambda>a d. (0, d))\<rparr>\<rparr>"

abbreviation sample_tables :: "romfs_dev tables" where
  "sample_tables \<equiv> bl_tables sample_hal (\<lambda>a. Drv_wdg)"

definition sample_boot :: "(addr \<Rightarrow> u8) \<Rightarrow> romfs_dev vfs" where
  "sample_boot im = \<lparr>g_vfs_mutex = None, inode_rb_tree = None, inodes = (\<lambda>a. inode0), files_handle_dev = None,
     files = (\<lambda>a. \<lparr>f_node = NULL, f_arg = NULL, f_offset = 0, f_fd = 0\<rparr>), dirs = (\<lambda>a. 0), mallocs = map Some [1..<20], takes = [], gives = [],
     dev = \<lparr>ram = (\<lambda>a. 0), gpio_devs = (\<lambda>a. \<lparr>gpio_config = 0, gpio_level = 0\<rparr>), i2c_dev_addr = (\<lambda>a. 0), flash = im, romfs_root = 0,
       romfs_dirs = (\<lambda>a. \<lparr>dir_start_addr = 0, dir_end_addr = 0, dir_cur_addr = 0, d_name = []\<rparr>),
       romfs_filebufs = (\<lambda>a. \<lparr>fb_buf = 0, fb_bufsize = 0\<rparr>), stats = (\<lambda>a. \<lparr>st_size = 0, st_mode = 0\<rparr>)\<rparr>\<rparr>"

definition sample_init :: "(addr \<Rightarrow> u8) \<Rightarrow> romfs_dev vfs" where
  "sample_init im = snd (vfs_init True (sample_boot im))"

definition sample_reg1 :: "(addr \<Rightarrow> u8) \<Rightarrow> romfs_dev vfs" where
  "sample_reg1 im = snd (the (aos_register_driver (sample_init im) (Some ''/dev/wdg'') (Some 1) (Some 9)))"

definition sample_reg2 :: "(addr \<Rightarrow> u8) \<Rightarrow> romfs_dev vfs" where
  "sample_reg2 im = snd (the (aos_register_fs (sample_reg1 im) (Some ''/romfs'') (Some 2) NULL))"

definition sample_open :: "(addr \<Rightarrow> u8) \<Rightarrow> romfs_dev vfs" where
  "sample_open im = snd (the (aos_open sample_tables (sample_reg2 im) (Some ''/dev/wdg'') 0))"

lemma the_result: "map_option fst x = Some r \<Longrightarrow> x = Some (r, snd (the x))"
  by (cases x) auto

lemma sample_results:
  "vfs_init True (sample_boot (\<lambda>_. 0)) = (0, sample_init (\<lambda>_. 0))"
  "aos_register_driver (sample_init (\<lambda>_. 0)) (Some ''/dev/wdg'') (Some 1) (Some 9) = Some (0, sample_reg1 (\<lambda>_. 0))"
  "aos_register_fs (sample_reg1 (\<lambda>_. 0)) (Some ''/romfs'') (Some 2) NULL = Some (0, sample_reg2 (\<lambda>_. 0))"
  "aos_open sample_tables (sample_reg2 (\<lambda>_. 0)) (Some ''/dev/wdg'') 0 = Some (2, sample_open (\<lambda>_. 0))"
proof -
  have "fst (vfs_init True (sample_boot (\<lambda>_. 0))) = 0" by code_simp
  then show "vfs_init True (sample_boot (\<lambda>_. 0)) = (0, sample_init (\<lambda>_. 0))" by (simp add: sample_init_def prod_eq_iff)
  show "aos_register_driver (sample_init (\<lambda>_. 0)) (Some ''/dev/wdg'') (Some 1) (Some 9) = Some (0, sample_reg1 (\<lambda>_. 0))"
    unfolding sample_reg1_def by (rule the_result) code_simp
  show "aos_register_fs (sample_reg1 (\<lambda>_. 0)) (Some ''/romfs'') (Some 2) NULL = Some (0, sample_reg2 (\<lambda>_. 0))"
    unfolding sample_reg2_def by (rule the_result) code_simp
  show "aos_open sample_tables (sample_reg2 (\<lambda>_. 0)) (Some ''/dev/wdg'') 0 = Some (2, sample_open (\<lambda>_. 0))"
    unfolding sample_open_def by (rule the_result) code_simp
qed

lemma sample_boot_ok: "vfs_boot (sample_boot (\<lambda>_. 0))"
  by (auto simp: vfs_boot_def sample_boot_def inode0_def distinct_map)

lemma sample_gives: "gives (sample_init (\<lambda>_. 0)) = []" "gives (sample_reg1 (\<lambda>_. 0)) = []"
  by code_simp+

lemma sample_names:
  "name_fits (sample_init (\<lambda>_. 0)) VFS_TYPE_CHAR_DEV ''/dev/wdg''" "name_fits (sample_reg1 (\<lambda>_. 0)) VFS_TYPE_FS_DEV ''/romfs''"
proof -
  have "registered (sample_init (\<lambda>_. 0)) = []" by code_simp
  then show "name_fits (sample_init (\<lambda>_. 0)) VFS_TYPE_CHAR_DEV ''/dev/wdg''" by (simp add: name_fits_def)
  have "registered (sample_reg1 (\<lambda>_. 0)) = [4]" "inode_key (inodes (sample_reg1 (\<lambda>_. 0))) 4 = ''/dev/wdg''"
    "\<not> is_fs (inodes (sample_reg1 (\<lambda>_. 0)) 4)" by code_simp+
  then show "name_fits (sample_reg1 (\<lambda>_. 0)) VFS_TYPE_FS_DEV ''/romfs''" by (simp add: name_fits_def strict_prefix_def)
qed

lemma sample_calls: "(vfs_call tb)\<^sup>*\<^sup>* (sample_init (\<lambda>_. 0)) (sample_reg2 (\<lambda>_. 0))"
proof -
  have "vfs_call tb (sample_init (\<lambda>_. 0)) (sample_reg1 (\<lambda>_. 0))"
    using sample_results(2) sample_names(1) sample_gives(1) by (auto simp: aos_register_driver_def intro: register_)
  moreover have "vfs_call tb (sample_reg1 (\<lambda>_. 0)) (sample_reg2 (\<lambda>_. 0))"
    using sample_results(3) sample_names(2) sample_gives(2) by (auto simp: aos_register_fs_def intro: register_)
  ultimately show ?thesis by (meson r_into_rtranclp rtranclp.rtrancl_into_rtrancl)
qed

lemma vfs_reachable_inv:
  assumes "vfs_boot v0" and "vfs_init mutex v0 = (0, v)" and "(vfs_call (bl_tables hal sel))\<^sup>*\<^sup>* v v'"
  shows "vfs_inv v'"
  using assms(3) vfs_init_inv [OF assms(1,2)] by (induction rule: rtranclp_induct) (auto intro: vfs_call_inv)

lemma sample_inv: "vfs_inv (sample_reg2 (\<lambda>_. 0))" "vfs_inv (sample_open (\<lambda>_. 0))"
proof -
  show 1: "vfs_inv (sample_reg2 (\<lambda>_. 0))" by (rule vfs_reachable_inv [OF sample_boot_ok sample_results(1) sample_calls])
  show "vfs_inv (sample_open (\<lambda>_. 0))" by (rule vfs_call_inv [OF open_ [OF sample_results(4)] 1])
qed

section \<open>Properties\<close>

text \<open>
  C0: In every state that the system calls, registrations and unregistrations lead to from
  \<open>vfs_init\<close>, with the drivers and romfs below, the tables agree: the bitmap of descriptors is the set of the
  descriptors of the open files, every open file refers to a registered node, the reference count
  of a node is the number of its open files, and both trees are ordered red-black trees.
\<close>

theorem vfs_reachable_consistent:
  assumes "vfs_boot v0" and "vfs_init mutex v0 = (0, v)" and "(vfs_call (bl_tables hal sel))\<^sup>*\<^sup>* v v'"
  shows "vfs_inv v'"
  by (rule vfs_reachable_inv [OF assms])

theorem vfs_reachable_consistent_witness:
  "\<exists>v0 v v'. vfs_boot v0 \<and> vfs_init True v0 = (0, v) \<and> (vfs_call sample_tables)\<^sup>*\<^sup>* v v' \<and> open_files v' \<noteq> [] \<and> vfs_inv v'"
proof -
  have c: "(vfs_call sample_tables)\<^sup>*\<^sup>* (sample_init (\<lambda>_. 0)) (sample_open (\<lambda>_. 0))"
    by (rule rtranclp.rtrancl_into_rtrancl [OF sample_calls open_ [OF sample_results(4)]])
  have "open_files (sample_open (\<lambda>_. 0)) = [10]" by code_simp
  then show ?thesis
    using sample_boot_ok sample_results(1) c vfs_reachable_consistent [OF sample_boot_ok sample_results(1) c] by (intro exI conjI) auto
qed

text \<open>
  C0: A call of \<open>aos_open\<close> either leaves the set of open files as it was, or adds one file
  whose descriptor is the lowest one not in use (between 2 and 61), is the value returned, finds the
  file again, and refers to a registered node that answers for the path.
\<close>

theorem aos_open_descriptor:
  assumes "vfs_inv v" and "aos_open (bl_tables hal sel) v (Some path) flags = Some (r, v')" and "nul_free path"
  shows "set (open_files v') = set (open_files v) \<or> opened v path r v'"
  by (rule open_result [OF assms])

theorem aos_open_descriptor_witness:
  "opened (sample_reg2 (\<lambda>_. 0)) ''/dev/wdg'' 2 (sample_open (\<lambda>_. 0))"
proof -
  have "nul_free ''/dev/wdg''" by simp
  moreover have "set (open_files (sample_open (\<lambda>_. 0))) \<noteq> set (open_files (sample_reg2 (\<lambda>_. 0)))" by code_simp
  ultimately show ?thesis using aos_open_descriptor [OF sample_inv(1) sample_results(4)] by blast
qed

text \<open>
  C0: \<open>aos_close\<close> of a descriptor that is not in use returns \<open>-ENOENT\<close> and changes
  nothing. Otherwise it removes exactly the file of the descriptor, which is not found any more, unless the
  mutex cannot be taken, when it returns -1 and the file stays open.
\<close>

theorem aos_close_descriptor:
  assumes "vfs_inv v" and "aos_close (bl_tables hal sel) v fd = Some (r, v')"
  shows "(r = - ENOENT \<and> v' = v \<and> (\<forall>f\<in>set (open_files v). f_fd (files v f) \<noteq> fd)) \<or>
    (\<exists>f\<in>set (open_files v). f_fd (files v f) = fd \<and> (r = -1 \<and> set (open_files v') = set (open_files v) \<or>
      set (open_files v') = set (open_files v) - {f} \<and> get_file v' fd = Some NULL))"
  by (rule close_result [OF assms])

theorem aos_close_descriptor_witness:
  "\<exists>v'. aos_close sample_tables (sample_open (\<lambda>_. 0)) 2 = Some (0, v') \<and> open_files v' = [] \<and> get_file v' 2 = Some NULL"
proof -
  define v' where "v' = snd (the (aos_close sample_tables (sample_open (\<lambda>_. 0)) 2))"
  have c: "aos_close sample_tables (sample_open (\<lambda>_. 0)) 2 = Some (0, v')" unfolding v'_def by (rule the_result) code_simp
  have o: "set (open_files (sample_open (\<lambda>_. 0))) = {10}" by code_simp
  show ?thesis using aos_close_descriptor [OF sample_inv(2) c] c o by (auto simp: ENOENT_def)
qed

text \<open>
  C0: A lookup is exact: \<open>inode_open\<close> returns a node if and only if the node is registered
  and its name is the path or it is a file system and the path continues its name with a slash.
\<close>

theorem inode_open_exact:
  assumes "vfs_inv v" and "nul_free path"
  shows "inode_open v path = Some n \<longleftrightarrow> n \<in> set (registered v) \<and> answers (inodes v n) path"
  using assms by (simp add: vfs_inv_def inode_open_iff)

theorem inode_open_exact_witness:
  "inode_open (sample_reg2 (\<lambda>_. 0)) ''/romfs/a.txt'' = Some 7 \<and> inode_open (sample_reg2 (\<lambda>_. 0)) ''/romfsx'' \<noteq> Some 7"
proof -
  have r: "registered (sample_reg2 (\<lambda>_. 0)) = [4, 7]" by code_simp
  have n: "name_of (inodes (sample_reg2 (\<lambda>_. 0)) 7) = ''/romfs''" "is_fs (inodes (sample_reg2 (\<lambda>_. 0)) 7)" by code_simp+
  show ?thesis
    using inode_open_exact [OF sample_inv(1), of "''/romfs/a.txt''" 7] inode_open_exact [OF sample_inv(1), of "''/romfsx''" 7] r n
    by (simp add: answers_def below_def)
qed

text \<open>
  C0: A node that has an open file cannot be removed: unregistering a path it answers for
  returns \<open>-EBUSY\<close> and leaves the table of nodes as it was.
\<close>

theorem unregister_in_use_refused:
  assumes "vfs_inv v" and "f \<in> users v n" and "answers (inodes v n) path" and "nul_free path"
    and "g_vfs_mutex v = Some False" and "takes v = []" and "gives v = []"
  shows "\<exists>v'. unregister_node v (Some path) = Some (- EBUSY, v') \<and> registered v' = registered v \<and> open_files v' = open_files v \<and>
    g_vfs_mutex v' = Some False"
proof -
  have n: "n \<in> set (registered v)" "i_refs (inodes v n) > 0"
  proof -
    show "n \<in> set (registered v)" using assms(1,2) no_users by blast
    have "unat (i_refs (inodes v n)) = card (users v n)" "finite (users v n)" using assms(1) by (auto simp: vfs_inv_def file_ok_def users_def)
    then show "i_refs (inodes v n) > 0" using assms(2) by (auto simp: word_less_nat_alt card_gt_0_iff)
  qed
  have o: "inode_open v path = Some n" using inode_open_iff [of v path n] assms n by (simp add: vfs_inv_def)
  let ?v = "v\<lparr>takes := [], g_vfs_mutex := Some True\<rparr>"
  have "inode_open ?v path = Some n" using o by (simp add: inode_open_def)
  then show ?thesis using assms n
    by (simp add: unregister_node_def xSemaphoreTake_def inode_release_def inode_del_def xSemaphoreGive_def EBUSY_def registered_def open_files_def)
qed

theorem unregister_in_use_refused_witness:
  "\<exists>v'. unregister_node (sample_open (\<lambda>_. 0)) (Some ''/dev/wdg'') = Some (- EBUSY, v') \<and> registered v' = registered (sample_open (\<lambda>_. 0)) \<and>
    open_files v' = open_files (sample_open (\<lambda>_. 0)) \<and> g_vfs_mutex v' = Some False"
proof (rule unregister_in_use_refused [of _ 10 4])
  have "10 \<in> set (open_files (sample_open (\<lambda>_. 0)))" "f_node (files (sample_open (\<lambda>_. 0)) 10) = Some 4" by code_simp+
  then show "10 \<in> users (sample_open (\<lambda>_. 0)) 4" by (simp add: users_def)
  have "name_of (inodes (sample_open (\<lambda>_. 0)) 4) = ''/dev/wdg''" by code_simp
  then show "answers (inodes (sample_open (\<lambda>_. 0)) 4) ''/dev/wdg''" by (simp add: answers_def)
  show "g_vfs_mutex (sample_open (\<lambda>_. 0)) = Some False" "takes (sample_open (\<lambda>_. 0)) = []" "gives (sample_open (\<lambda>_. 0)) = []" by code_simp+
qed (simp_all add: sample_inv)

text \<open>
  C0: The first open of a device initialises the hardware and a further one leaves it alone; closing the
  last open file of a device finalises it and closing another one leaves it alone. This holds for
  every driver of \<open>fs/vfs/device\<close> modelled here.
\<close>

theorem device_on_while_open:
  assumes "vfs_inv v" and "n \<in> set (registered v)" and "\<not> is_fs (inodes v n)" and "i_ops (inodes v n) = Some a" and "i_arg (inodes v n) = Some d"
  shows "(inode_open v path = Some n \<and> aos_open (bl_tables hal sel) v (Some path) flags = Some (r, v') \<and> set (open_files v') \<noteq> set (open_files v)
      \<longrightarrow> dev v' = (if users v n = {} then snd (drv_init hal (sel a) (Some d) (dev v)) else dev v)) \<and>
    (f \<in> users v n \<and> aos_close (bl_tables hal sel) v (f_fd (files v f)) = Some (r, v')
      \<longrightarrow> dev v' = (if users v n = {f} then snd (drv_finalize hal (sel a) d (dev v)) else dev v))"
  by (intro conjI impI; elim conjE)
    (rule open_switches_on [OF assms(1) _ assms(3,4), unfolded assms(5)] close_switches_off [OF assms(1) _ assms(3-5)]; assumption)+

theorem device_on_while_open_witness:
  "ram (dev (sample_reg2 (\<lambda>_. 0))) 0 = 0 \<and> ram (dev (sample_open (\<lambda>_. 0))) 0 = 1"
proof -
  let ?v = "sample_reg2 (\<lambda>_. 0)"
  have n: "4 \<in> set (registered ?v)" "\<not> is_fs (inodes ?v 4)" "i_ops (inodes ?v 4) = Some 1" "i_arg (inodes ?v 4) = Some 9"
    "inode_open ?v ''/dev/wdg'' = Some 4" "open_files ?v = []" "set (open_files (sample_open (\<lambda>_. 0))) \<noteq> set (open_files ?v)" "ram (dev ?v) 0 = 0"
    by code_simp+
  have "users ?v 4 = {}" using n(6) by (simp add: users_def)
  then have "dev (sample_open (\<lambda>_. 0)) = snd (drv_init sample_hal Drv_wdg (Some 9) (dev ?v))"
    using device_on_while_open [OF sample_inv(1) n(1-4), of "''/dev/wdg''" sample_hal "\<lambda>_. Drv_wdg" 0 2 "sample_open (\<lambda>_. 0)"]
      n(5,7) sample_results(4) by simp
  then show ?thesis using n(8) by (simp add: drv_init_def sample_hal_def)
qed

text \<open>
  C0: \<open>aos_statfs\<close> never gives the mutex back: called with the mutex free it returns 1
  with the mutex held and without having called the file system, and every later open, with no other task to release the mutex,
  waits for ever.
\<close>

theorem aos_statfs_keeps_mutex:
  assumes "g_vfs_mutex v = Some False" and "takes v = []"
  shows "\<exists>v'. aos_statfs tb v (Some path) buf = Some (1, v') \<and> dev v' = dev v \<and> g_vfs_mutex v' = Some True \<and>
    (length other \<le> PATH_MAX \<longrightarrow> aos_open tb v' (Some other) flags = None)"
  using assms by (simp add: aos_statfs_def xSemaphoreTake_def aos_open_def)

theorem aos_statfs_keeps_mutex_witness:
  "\<exists>v'. aos_statfs sample_tables (sample_reg2 (\<lambda>_. 0)) (Some ''/romfs'') 0 = Some (1, v') \<and> aos_open sample_tables v' (Some ''/romfs'') 0 = None"
proof -
  have "g_vfs_mutex (sample_reg2 (\<lambda>_. 0)) = Some False" "takes (sample_reg2 (\<lambda>_. 0)) = []" by code_simp+
  from aos_statfs_keeps_mutex [OF this, where tb = sample_tables and buf = 0 and flags = 0 and path = "''/romfs''" and other = "''/romfs''"] show ?thesis by (auto simp: PATH_MAX_def)
qed

end
