(* ===== verification/Spec2Isabelle.thy ===== *)
theory Spec2Isabelle
  imports Utils_RBTree_Spec Utils_List Utils_Dlist Utils_RingBlk Utils_CRC Utils_Hex Utils_Base64
    Utils_Memp Utils_TLV Utils_BitmapWindow Utils_Notifier Bloop_Props Vfs_Calls
begin

text \<open>
  Verification of the components of the BL602 IoT SDK.
\<close>

end
